theory Spec2Isabelle
  imports Main
begin

section \<open>JavaScript values and the platform\<close>

text \<open>
  The values that travel through the bridge (payloads, event objects, message types).
  Numbers are restricted to integers; plain objects are association lists of their own
  properties, in insertion order. \<open>JOpaque n\<close> is an object that is not plain data (one
  that refers to itself, that has no prototype, whose methods throw), known by a number:
  it has none of the properties the modules read, and what \<^verbatim>\<open>JSON.stringify\<close> and
  \<^verbatim>\<open>String\<close> make of it is the platform's business.
\<close>

datatype jsval =
    JUndefined
  | JNull
  | JBool bool
  | JNum int
  | JStr string
  | JArr "jsval list"
  | JObj "(string \<times> jsval) list"
  | JOpaque nat

text \<open>\<^verbatim>\<open>typeof v === 'string'\<close>\<close>

fun is_string :: "jsval \<Rightarrow> bool" where
  "is_string (JStr s) = True"
| "is_string v = False"

text \<open>\<^verbatim>\<open>typeof v === 'object'\<close> (true of \<^verbatim>\<open>null\<close>, arrays and objects)\<close>

fun typeof_object :: "jsval \<Rightarrow> bool" where
  "typeof_object JNull = True"
| "typeof_object (JArr xs) = True"
| "typeof_object (JObj ps) = True"
| "typeof_object (JOpaque n) = True"
| "typeof_object v = False"

text \<open>Truthiness, as tested by \<^verbatim>\<open>!v\<close> and \<^verbatim>\<open>v && ...\<close>.\<close>

fun truthy :: "jsval \<Rightarrow> bool" where
  "truthy JUndefined = False"
| "truthy JNull = False"
| "truthy (JBool b) = b"
| "truthy (JNum n) = (n \<noteq> 0)"
| "truthy (JStr s) = (s \<noteq> [])"
| "truthy (JArr xs) = True"
| "truthy (JObj ps) = True"
| "truthy (JOpaque n) = True"

text \<open>\<^verbatim>\<open>k in v\<close> for an object \<open>v\<close> and a property name that no array has.\<close>

fun has_prop :: "string \<Rightarrow> jsval \<Rightarrow> bool" where
  "has_prop k (JObj ps) = (k \<in> fst ` set ps)"
| "has_prop k v = False"

text \<open>\<^verbatim>\<open>v.k\<close> for a truthy \<open>v\<close>: a missing property reads as \<^verbatim>\<open>undefined\<close>.\<close>

fun get_prop :: "jsval \<Rightarrow> string \<Rightarrow> jsval" where
  "get_prop (JObj ps) k = (case map_of ps k of Some v \<Rightarrow> v | None \<Rightarrow> JUndefined)"
| "get_prop v k = JUndefined"

text \<open>
  The built-ins the modules call and the code on the other side of the bridge are
  parameters of the model: \<^verbatim>\<open>JSON.parse\<close> and \<^verbatim>\<open>JSON.stringify\<close> (\<open>None\<close> when they
  throw), \<^verbatim>\<open>String\<close> (\<open>String_throws\<close> tells on which values it throws, \<open>String_of\<close>
  what it returns on the others), the host's callbacks (numbered; \<open>invoke n args h\<close> runs
  callback \<open>n\<close> in host state \<open>h\<close> and tells whether it returned normally;
  \<open>dispatches n args h\<close> are the events of the channel that the callback hands to
  \<^verbatim>\<open>window.dispatchEvent\<close> while it runs) and the engine's \<^verbatim>\<open>SendMessage\<close> (like
  \<open>invoke\<close>). Dispatching apart, host callbacks call nothing of the bridge or the
  event bus while they run.
\<close>

record 'h env =
  JSON_parse :: "string \<Rightarrow> jsval option"
  JSON_stringify :: "jsval \<Rightarrow> jsval option"
  String_of :: "jsval \<Rightarrow> string"
  String_throws :: "jsval \<Rightarrow> bool"
  invoke :: "nat \<Rightarrow> jsval list \<Rightarrow> 'h \<Rightarrow> bool \<times> 'h"
  dispatches :: "nat \<Rightarrow> jsval list \<Rightarrow> 'h \<Rightarrow> jsval list"
  SendMessage :: "nat \<Rightarrow> string \<Rightarrow> string \<Rightarrow> jsval \<Rightarrow> 'h \<Rightarrow> bool \<times> 'h"

section \<open>State of the modules\<close>

text \<open>
  An instance handle: which engine instance it is, whether
  \<^verbatim>\<open>typeof instance.SendMessage === 'function'\<close>, and whether \<^verbatim>\<open>instance.Quit\<close>
  is there to call.
\<close>

record handle =
  inst_id :: nat
  has_SendMessage :: bool
  has_Quit :: bool

record outbound =
  objectName :: string
  methodName :: string
  payload :: jsval

datatype pstate = Pending | Resolved "handle option"

text \<open>A global observer of the bridge: a host callback, or the event bus's forwarder.\<close>

datatype gfn = GHost nat | GForwarder

text \<open>
  A subscriber of the event bus: a host callback, or the closure \<^verbatim>\<open>wrapped\<close> that
  \<^verbatim>\<open>once\<close> builds, with its identity and the \<^verbatim>\<open>type\<close> and \<^verbatim>\<open>handler\<close> it captures.
\<close>

datatype sub = SHost nat | SOnce nat jsval nat

text \<open>
  What the modules do, in the order they do it: a call of a registered function (a
  per-type handler of the bridge, a global observer of the bridge, a subscriber of the
  bus) with its arguments and whether it returned normally, a call of
  \<^verbatim>\<open>SendMessage\<close> on an instance, a call of \<^verbatim>\<open>JSON.parse\<close>, a line on
  \<^verbatim>\<open>console.error\<close>.
\<close>

datatype callee = Handler nat | Observer gfn | Subscriber sub

datatype effect =
    Called callee "jsval list" bool
  | Sent nat string string jsval
  | Parsed string
  | ConsoleError

text \<open>
  The module-level variables of \<^verbatim>\<open>unityBridge.js\<close> and \<^verbatim>\<open>unityEventBus.js\<close>. A
  \<^verbatim>\<open>Map\<close> is an association list and a \<^verbatim>\<open>Set\<close> a list without duplicates, both in
  insertion order; keys are compared as values, which is how JavaScript compares the
  strings and numbers that serve as message types. Promises live in \<open>promises\<close>, a
  promise being its index there.
\<close>

record 'h sys =
  handlers :: "(jsval \<times> nat list) list"
  globalHandlers :: "gfn list"
  unityInstance :: "handle option"
  queuedSends :: "outbound list"
  readyPromise :: "nat option"
  readyResolve :: "nat option"
  subscribers :: "(jsval \<times> sub list) list"
  installed :: bool
  promises :: "pstate list"
  closures :: nat
  host :: 'h
  trace :: "effect list"

definition init_sys :: "'h \<Rightarrow> 'h sys" where
  "init_sys h = \<lparr> handlers = [], globalHandlers = [], unityInstance = None,
     queuedSends = [], readyPromise = None, readyResolve = None, subscribers = [],
     installed = False, promises = [], closures = 0, host = h, trace = [] \<rparr>"

definition emit :: "effect \<Rightarrow> 'h sys \<Rightarrow> 'h sys" where
  "emit e s = s\<lparr>trace := trace s @ [e]\<rparr>"

section \<open>Maps and sets of JavaScript\<close>

definition set_add :: "'a \<Rightarrow> 'a list \<Rightarrow> 'a list" where
  "set_add x xs = (if x \<in> set xs then xs else xs @ [x])"

definition set_delete :: "'a \<Rightarrow> 'a list \<Rightarrow> 'a list" where
  "set_delete x xs = filter (\<lambda>y. y \<noteq> x) xs"

definition map_set :: "'k \<Rightarrow> 'v \<Rightarrow> ('k \<times> 'v) list \<Rightarrow> ('k \<times> 'v) list" where
  "map_set k v m = (if k \<in> fst ` set m
     then map (\<lambda>(k', v'). if k' = k then (k', v) else (k', v')) m else m @ [(k, v)])"

definition map_delete :: "'k \<Rightarrow> ('k \<times> 'v) list \<Rightarrow> ('k \<times> 'v) list" where
  "map_delete k m = filter (\<lambda>(k', v'). k' \<noteq> k) m"

section \<open>The bridge: outbound calls\<close>

text \<open>
  This section has \<^verbatim>\<open>doSend\<close>, \<^verbatim>\<open>send\<close> and \<^verbatim>\<open>setInstance\<close> on the inputs on
  which nothing is thrown inside them that they do not catch: a payload on which
  \<^verbatim>\<open>String\<close> returns (it is called only after \<^verbatim>\<open>JSON.stringify\<close> has thrown) and
  a fourth argument of \<^verbatim>\<open>send\<close> that is an options object or left out. The section on
  outbound calls on any payload has them on every input, with what they throw.

  The argument \<^verbatim>\<open>doSend\<close> passes to \<^verbatim>\<open>SendMessage\<close> for a payload.
\<close>

definition send_arg :: "'h env \<Rightarrow> jsval \<Rightarrow> jsval" where
  "send_arg E p =
     (if p \<noteq> JUndefined \<and> \<not> is_string p
      then (case JSON_stringify E p of Some v \<Rightarrow> v | None \<Rightarrow> JStr (String_of E p))
      else p)"

definition doSend :: "'h env \<Rightarrow> string \<Rightarrow> string \<Rightarrow> jsval \<Rightarrow> 'h sys \<Rightarrow> bool \<times> 'h sys" where
  "doSend E obj meth p s =
     (case unityInstance s of
        None \<Rightarrow> (False, s)
      | Some i \<Rightarrow>
          if \<not> has_SendMessage i then (False, s)
          else
            let arg = send_arg E p;
                (ok, h') = SendMessage E (inst_id i) obj meth arg (host s);
                s' = emit (Sent (inst_id i) obj meth arg) (s\<lparr>host := h'\<rparr>)
            in if ok then (True, s') else (False, emit ConsoleError s'))"

text \<open>
  \<^verbatim>\<open>send(objectName, methodName, payload, { queue = true } = {})\<close>: the option is
  \<open>None\<close> when the caller leaves it out.
\<close>

definition send :: "'h env \<Rightarrow> string \<Rightarrow> string \<Rightarrow> jsval \<Rightarrow> bool option \<Rightarrow> 'h sys \<Rightarrow> bool \<times> 'h sys" where
  "send E obj meth p queue s =
     (if (case unityInstance s of None \<Rightarrow> False | Some i \<Rightarrow> has_SendMessage i)
      then doSend E obj meth p s
      else if (case queue of None \<Rightarrow> True | Some q \<Rightarrow> q)
      then (True, s\<lparr>queuedSends := queuedSends s @
              [\<lparr>objectName = obj, methodName = meth, payload = p\<rparr>]\<rparr>)
      else (False, s))"

text \<open>The loop of \<^verbatim>\<open>setInstance\<close> over the queue; the result of each call is dropped.\<close>

fun flush :: "'h env \<Rightarrow> outbound list \<Rightarrow> 'h sys \<Rightarrow> 'h sys" where
  "flush E [] s = s"
| "flush E (item # items) s =
     flush E items (snd (doSend E (objectName item) (methodName item) (payload item) s))"

text \<open>Calling the \<^verbatim>\<open>resolve\<close> function of promise \<open>p\<close>: only a pending promise changes.\<close>

definition resolve_promise :: "nat \<Rightarrow> handle option \<Rightarrow> pstate list \<Rightarrow> pstate list" where
  "resolve_promise p v ps =
     (if p < length ps \<and> ps ! p = Pending then ps[p := Resolved v] else ps)"

definition setInstance :: "'h env \<Rightarrow> handle option \<Rightarrow> 'h sys \<Rightarrow> 'h sys" where
  "setInstance E inst s =
     (let s1 = s\<lparr>unityInstance := inst\<rparr>;
          s2 = (if inst \<noteq> None \<and> queuedSends s1 \<noteq> []
                then (flush E (queuedSends s1) s1)\<lparr>queuedSends := []\<rparr> else s1)
      in case readyResolve s2 of
           None \<Rightarrow> s2
         | Some p \<Rightarrow> s2\<lparr>promises := resolve_promise p (unityInstance s2) (promises s2),
                        readyPromise := None, readyResolve := None\<rparr>)"

definition clearInstance :: "'h sys \<Rightarrow> 'h sys" where
  "clearInstance s =
     s\<lparr>unityInstance := None, queuedSends := [], readyPromise := None, readyResolve := None\<rparr>"

definition ensureReadyPromise :: "'h sys \<Rightarrow> nat \<times> 'h sys" where
  "ensureReadyPromise s =
     (case readyPromise s of
        Some p \<Rightarrow> (p, s)
      | None \<Rightarrow> (let p = length (promises s)
                 in (p, s\<lparr>promises := promises s @ [Pending],
                          readyPromise := Some p, readyResolve := Some p\<rparr>)))"

definition whenReady :: "'h sys \<Rightarrow> nat \<times> 'h sys" where
  "whenReady s =
     (case unityInstance s of
        Some i \<Rightarrow> (length (promises s), s\<lparr>promises := promises s @ [Resolved (Some i)]\<rparr>)
      | None \<Rightarrow> ensureReadyPromise s)"

section \<open>The bridge: registries\<close>

definition registerHandler :: "jsval \<Rightarrow> nat \<Rightarrow> 'h sys \<Rightarrow> 'h sys" where
  "registerHandler ev fn s =
     (let m = (if map_of (handlers s) ev = None then map_set ev [] (handlers s) else handlers s)
      in case map_of m ev of
           None \<Rightarrow> s\<lparr>handlers := m\<rparr>
         | Some fs \<Rightarrow> s\<lparr>handlers := map_set ev (set_add fn fs) m\<rparr>)"

definition unregisterHandler :: "jsval \<Rightarrow> nat \<Rightarrow> 'h sys \<Rightarrow> 'h sys" where
  "unregisterHandler ev fn s =
     (case map_of (handlers s) ev of
        None \<Rightarrow> s
      | Some fs \<Rightarrow>
          (let fs' = set_delete fn fs;
               s1 = s\<lparr>handlers := map_set ev fs' (handlers s)\<rparr>
           in if fs' = [] then s1\<lparr>handlers := map_delete ev (handlers s1)\<rparr> else s1))"

definition registerGlobalHandler :: "gfn \<Rightarrow> 'h sys \<Rightarrow> 'h sys" where
  "registerGlobalHandler fn s = s\<lparr>globalHandlers := set_add fn (globalHandlers s)\<rparr>"

definition unregisterGlobalHandler :: "gfn \<Rightarrow> 'h sys \<Rightarrow> 'h sys" where
  "unregisterGlobalHandler fn s =
     (if fn \<in> set (globalHandlers s)
      then s\<lparr>globalHandlers := set_delete fn (globalHandlers s)\<rparr> else s)"

section \<open>The event bus\<close>

definition ensureSet :: "jsval \<Rightarrow> 'h sys \<Rightarrow> sub list \<times> 'h sys" where
  "ensureSet ty s =
     (case map_of (subscribers s) ty of
        Some fs \<Rightarrow> (fs, s)
      | None \<Rightarrow> ([], s\<lparr>subscribers := map_set ty [] (subscribers s)\<rparr>))"

text \<open>
  \<^verbatim>\<open>_install\<close>: \<^verbatim>\<open>unityApi.onMessage\<close> hands the forwarder, a function, to
  \<^verbatim>\<open>registerGlobalHandler\<close> and does not throw.
\<close>

definition install :: "'h sys \<Rightarrow> 'h sys" where
  "install s =
     (if installed s then s else (registerGlobalHandler GForwarder s)\<lparr>installed := True\<rparr>)"

definition subscriberCount :: "'h sys \<Rightarrow> nat" where
  "subscriberCount s = sum_list (map (\<lambda>(ty, fs). length fs) (subscribers s))"

definition maybeUninstall :: "'h sys \<Rightarrow> 'h sys" where
  "maybeUninstall s =
     (if \<not> installed s then s
      else if subscriberCount s = 0
      then (unregisterGlobalHandler GForwarder s)\<lparr>installed := False\<rparr>
      else s)"

definition unsubscribe :: "jsval \<Rightarrow> sub \<Rightarrow> 'h sys \<Rightarrow> 'h sys" where
  "unsubscribe ty fn s =
     (case map_of (subscribers s) ty of
        None \<Rightarrow> s
      | Some fs \<Rightarrow>
          (let fs' = set_delete fn fs;
               s1 = s\<lparr>subscribers := map_set ty fs' (subscribers s)\<rparr>;
               s2 = (if fs' = [] then s1\<lparr>subscribers := map_delete ty (subscribers s1)\<rparr> else s1)
           in maybeUninstall s2))"

text \<open>
  \<^verbatim>\<open>subscribe\<close>: the handler is \<open>None\<close> when it is not a function. The function that
  \<^verbatim>\<open>subscribe\<close> returns is the pair it captures, or \<open>None\<close> for \<^verbatim>\<open>() => { }\<close>;
  \<open>call_unsub\<close> calls it.
\<close>

definition subscribe :: "jsval \<Rightarrow> sub option \<Rightarrow> 'h sys \<Rightarrow> (jsval \<times> sub) option \<times> 'h sys" where
  "subscribe ty handler s =
     (case handler of
        None \<Rightarrow> (None, s)
      | Some fn \<Rightarrow>
          (let s1 = install s;
               (fs, s2) = ensureSet ty s1
           in (Some (ty, fn), s2\<lparr>subscribers := map_set ty (set_add fn fs) (subscribers s2)\<rparr>)))"

definition call_unsub :: "(jsval \<times> sub) option \<Rightarrow> 'h sys \<Rightarrow> 'h sys" where
  "call_unsub u s = (case u of None \<Rightarrow> s | Some (ty, fn) \<Rightarrow> unsubscribe ty fn s)"

text \<open>\<^verbatim>\<open>once\<close>: the handler is a host callback, or \<open>None\<close> when it is not a function.\<close>

definition once :: "jsval \<Rightarrow> nat option \<Rightarrow> 'h sys \<Rightarrow> 'h sys" where
  "once ty handler s =
     (case handler of
        None \<Rightarrow> s
      | Some h \<Rightarrow>
          snd (subscribe ty (Some (SOnce (closures s) ty h)) (s\<lparr>closures := Suc (closures s)\<rparr>)))"

text \<open>\<^verbatim>\<open>clear(type)\<close>: \<^verbatim>\<open>type == null\<close> holds of \<^verbatim>\<open>null\<close> and \<^verbatim>\<open>undefined\<close>.\<close>

definition clear :: "jsval \<Rightarrow> 'h sys \<Rightarrow> 'h sys" where
  "clear ty s =
     (if ty = JNull \<or> ty = JUndefined
      then maybeUninstall (s\<lparr>subscribers := []\<rparr>)
      else maybeUninstall (s\<lparr>subscribers := map_delete ty (subscribers s)\<rparr>))"

text \<open>
  Calling a subscriber as \<^verbatim>\<open>fn(payload, meta)\<close>. The closure of \<^verbatim>\<open>once\<close> runs its
  handler and then, in its \<^verbatim>\<open>finally\<close>, unsubscribes itself; the handler's fault, if
  any, leaves the closure.

  The dispatch of this section and the next is the dispatch with callbacks that only
  return or throw and change the state of the host (\<open>dispatches\<close> is not consulted).
  The section on callbacks that dispatch while they run has the same functions with
  callbacks that cause a dispatch from inside a dispatch.
\<close>

fun call_sub :: "'h env \<Rightarrow> sub \<Rightarrow> jsval list \<Rightarrow> 'h sys \<Rightarrow> bool \<times> 'h sys" where
  "call_sub E (SHost n) args s =
     (let (ok, h') = invoke E n args (host s)
      in (ok, emit (Called (Subscriber (SHost n)) args ok) (s\<lparr>host := h'\<rparr>)))"
| "call_sub E (SOnce w ty h) args s =
     (let (ok, h') = invoke E h args (host s);
          s1 = emit (Called (Subscriber (SOnce w ty h)) args ok) (s\<lparr>host := h'\<rparr>)
      in (ok, unsubscribe ty (SOnce w ty h) s1))"

fun forward_loop :: "'h env \<Rightarrow> sub list \<Rightarrow> jsval list \<Rightarrow> 'h sys \<Rightarrow> 'h sys" where
  "forward_loop E [] args s = s"
| "forward_loop E (fn # fns) args s =
     (let (ok, s1) = call_sub E fn args s
      in forward_loop E fns args (if ok then s1 else emit ConsoleError s1))"

definition globalForwarder :: "'h env \<Rightarrow> jsval \<Rightarrow> jsval \<Rightarrow> jsval \<Rightarrow> 'h sys \<Rightarrow> 'h sys" where
  "globalForwarder E ty p meta s =
     (case map_of (subscribers s) ty of
        None \<Rightarrow> s
      | Some fs \<Rightarrow> if fs = [] then s else forward_loop E fs [p, meta] s)"

section \<open>The bridge: inbound dispatch\<close>

fun handler_loop :: "'h env \<Rightarrow> nat list \<Rightarrow> jsval \<Rightarrow> 'h sys \<Rightarrow> 'h sys" where
  "handler_loop E [] p s = s"
| "handler_loop E (fn # fns) p s =
     (let (ok, h') = invoke E fn [p] (host s);
          s1 = emit (Called (Handler fn) [p] ok) (s\<lparr>host := h'\<rparr>)
      in handler_loop E fns p (if ok then s1 else emit ConsoleError s1))"

definition emitToHandlers :: "'h env \<Rightarrow> jsval \<Rightarrow> jsval \<Rightarrow> 'h sys \<Rightarrow> 'h sys" where
  "emitToHandlers E ev p s =
     (case map_of (handlers s) ev of None \<Rightarrow> s | Some fs \<Rightarrow> handler_loop E fs p s)"

text \<open>
  Calling a global observer as \<^verbatim>\<open>fn(type, payload, meta)\<close>. The forwarder of the bus
  catches what its subscribers throw and returns normally.
\<close>

fun call_global :: "'h env \<Rightarrow> gfn \<Rightarrow> jsval \<Rightarrow> jsval \<Rightarrow> jsval \<Rightarrow> 'h sys \<Rightarrow> bool \<times> 'h sys" where
  "call_global E (GHost n) ty p meta s =
     (let (ok, h') = invoke E n [ty, p, meta] (host s)
      in (ok, emit (Called (Observer (GHost n)) [ty, p, meta] ok) (s\<lparr>host := h'\<rparr>)))"
| "call_global E GForwarder ty p meta s =
     (True, globalForwarder E ty p meta
              (emit (Called (Observer GForwarder) [ty, p, meta] True) s))"

fun global_loop :: "'h env \<Rightarrow> gfn list \<Rightarrow> jsval \<Rightarrow> jsval \<Rightarrow> jsval \<Rightarrow> 'h sys \<Rightarrow> 'h sys" where
  "global_loop E [] ty p meta s = s"
| "global_loop E (fn # fns) ty p meta s =
     (let (ok, s1) = call_global E fn ty p meta s
      in global_loop E fns ty p meta (if ok then s1 else emit ConsoleError s1))"

definition emitToGlobalHandlers :: "'h env \<Rightarrow> jsval \<Rightarrow> jsval \<Rightarrow> jsval \<Rightarrow> 'h sys \<Rightarrow> 'h sys" where
  "emitToGlobalHandlers E ty p meta s = global_loop E (globalHandlers s) ty p meta s"

text \<open>
  The payload handed to the handlers: a string is given to \<^verbatim>\<open>JSON.parse\<close> and kept as
  it is when that throws.
\<close>

definition normalize :: "'h env \<Rightarrow> jsval \<Rightarrow> 'h sys \<Rightarrow> jsval \<times> 'h sys" where
  "normalize E p s =
     (case p of
        JStr str \<Rightarrow>
          (case JSON_parse E str of
             Some v \<Rightarrow> (v, emit (Parsed str) s)
           | None \<Rightarrow> (p, emit (Parsed str) s))
      | _ \<Rightarrow> (p, s))"

datatype exn = TypeError

text \<open>
  The listener on \<^verbatim>\<open>window\<close> for \<^verbatim>\<open>'UnityMessage'\<close>. The operator
  \<^verbatim>\<open>in\<close> throws on a truthy value that is not an object.
\<close>

definition windowUnityMessageListener :: "'h env \<Rightarrow> jsval \<Rightarrow> 'h sys \<Rightarrow> exn + 'h sys" where
  "windowUnityMessageListener E e s =
     (if truthy e \<and> \<not> typeof_object e then Inl TypeError
      else
        let detail = (if truthy e \<and> has_prop ''detail'' e then get_prop e ''detail''
                      else JUndefined)
        in if \<not> truthy detail \<or> \<not> typeof_object detail then Inr s
           else
             let ty = get_prop detail ''type'';
                 p = get_prop detail ''payload''
             in if ty = JUndefined \<or> ty = JNull then Inr s
                else
                  let (normalized, s1) = normalize E p s;
                      s2 = emitToHandlers E ty normalized s1
                  in Inr (emitToGlobalHandlers E ty normalized (get_prop detail ''meta'') s2))"

section \<open>The loader hook\<close>

datatype loading_state = IDLE | LOADING | READY | ERROR | RELOADING

text \<open>The errors the hook builds itself, and the reason \<^verbatim>\<open>createUnityInstance\<close> rejects with.\<close>

datatype load_error =
    CanvasNotFound
  | CreateUnavailable
  | LoaderScriptFailed
  | StaleResult
  | UnmountedBeforeCreated
  | CreateRejected nat

text \<open>
  The refs and the React state of \<^verbatim>\<open>useUnityLoader\<close>; \<open>hook_unityInstance\<close> is the
  state variable \<^verbatim>\<open>unityInstance\<close>. A script element is its number, \<open>scripts\<close>
  counts the elements created, and \<open>quits\<close> lists the instances whose \<^verbatim>\<open>Quit\<close> was
  called.
\<close>

record loader =
  unityInstanceRef :: "handle option"
  createdRef :: bool
  scriptRef :: "nat option"
  mountedRef :: bool
  reloadingRef :: bool
  loadingPromiseRef :: "nat option"
  loadIdRef :: nat
  hook_unityInstance :: "handle option"
  loadError :: "load_error option"
  loadingState :: loading_state
  scripts :: nat
  quits :: "nat list"

definition init_loader :: loader where
  "init_loader = \<lparr> unityInstanceRef = None, createdRef = False, scriptRef = None,
     mountedRef = False, reloadingRef = False, loadingPromiseRef = None, loadIdRef = 0,
     hook_unityInstance = None, loadError = None, loadingState = IDLE, scripts = 0,
     quits = [] \<rparr>"

text \<open>\<^verbatim>\<open>try { instance.Quit && instance.Quit(); } catch (e) { }\<close>\<close>

definition quit :: "handle \<Rightarrow> loader \<Rightarrow> loader" where
  "quit i l = (if has_Quit i then l\<lparr>quits := quits l @ [inst_id i]\<rparr> else l)"

text \<open>
  The callback that \<^verbatim>\<open>initialize\<close> gives to \<^verbatim>\<open>then\<close>: it returns the instance, or
  the error of the promise it rejects with.
\<close>

definition initialize_then :: "nat option \<Rightarrow> handle \<Rightarrow> loader \<Rightarrow> (load_error + handle) \<times> loader" where
  "initialize_then myLoadId i l =
     (if myLoadId \<noteq> None \<and> Some (loadIdRef l) \<noteq> myLoadId then (Inl StaleResult, quit i l)
      else if \<not> mountedRef l then (Inl UnmountedBeforeCreated, quit i l)
      else (Inr i, l\<lparr>unityInstanceRef := Some i, hook_unityInstance := Some i,
                       loadingState := READY, createdRef := True\<rparr>))"

text \<open>The callback that \<^verbatim>\<open>initialize\<close> gives to \<^verbatim>\<open>catch\<close>; it throws the error again.\<close>

definition initialize_catch :: "load_error \<Rightarrow> loader \<Rightarrow> loader" where
  "initialize_catch err l = l\<lparr>loadError := Some err, loadingState := ERROR\<rparr>"

text \<open>
  \<^verbatim>\<open>create(...).then(...).catch(...)\<close> once the promise of \<^verbatim>\<open>create\<close> settles, with
  an instance or with a reason: a rejection of the first callback reaches the second.
\<close>

definition create_settled :: "nat option \<Rightarrow> nat + handle \<Rightarrow> loader \<Rightarrow> (load_error + handle) \<times> loader" where
  "create_settled myLoadId r l =
     (case r of
        Inl reason \<Rightarrow> (Inl (CreateRejected reason), initialize_catch (CreateRejected reason) l)
      | Inr i \<Rightarrow>
          (case initialize_then myLoadId i l of
             (Inl err, l1) \<Rightarrow> (Inl err, initialize_catch err l1)
           | (Inr i', l1) \<Rightarrow> (Inr i', l1)))"

text \<open>
  \<^verbatim>\<open>initialize(myLoadId)\<close> up to the call of \<^verbatim>\<open>create\<close>: \<open>canvas\<close> tells whether
  \<^verbatim>\<open>canvasRef.current\<close> is there, \<open>create\<close> whether \<^verbatim>\<open>createUnityInstance\<close> is a
  function. The result is the error of the rejected promise, or the attempt whose
  \<^verbatim>\<open>create\<close> is now pending.
\<close>

definition initialize :: "bool \<Rightarrow> bool \<Rightarrow> nat option \<Rightarrow> loader \<Rightarrow> (load_error + nat option) \<times> loader" where
  "initialize canvas create myLoadId l =
     (if \<not> canvas then (Inl CanvasNotFound, l\<lparr>loadError := Some CanvasNotFound\<rparr>)
      else if \<not> create then (Inl CreateUnavailable, l\<lparr>loadError := Some CreateUnavailable\<rparr>)
      else (Inr myLoadId, l))"

text \<open>\<^verbatim>\<open>injectLoader\<close>, up to the return of its promise.\<close>

definition injectLoader :: "loader \<Rightarrow> loader" where
  "injectLoader l =
     l\<lparr>loadError := None, loadingState := LOADING, scriptRef := Some (scripts l),
       scripts := Suc (scripts l)\<rparr>"

text \<open>The listeners \<^verbatim>\<open>onLoad\<close> and \<^verbatim>\<open>onError\<close> that \<^verbatim>\<open>injectLoader\<close> attaches.\<close>

definition onLoad :: "bool \<Rightarrow> bool \<Rightarrow> loader \<Rightarrow> (load_error + nat option) \<times> loader" where
  "onLoad canvas create l =
     (let l1 = l\<lparr>loadIdRef := Suc (loadIdRef l)\<rparr>
      in initialize canvas create (Some (loadIdRef l1)) l1)"

definition onError :: "loader \<Rightarrow> loader" where
  "onError l = l\<lparr>loadError := Some LoaderScriptFailed\<rparr>"

text \<open>
  The script element's events: \<^verbatim>\<open>doCleanup\<close> removes the listeners of the element in
  \<^verbatim>\<open>scriptRef\<close>, so an element that is no longer there calls nothing.
\<close>

definition script_load :: "nat \<Rightarrow> bool \<Rightarrow> bool \<Rightarrow> loader \<Rightarrow> (load_error + nat option) \<times> loader" where
  "script_load sid canvas create l =
     (if scriptRef l = Some sid then onLoad canvas create l else (Inr None, l))"

definition script_error :: "nat \<Rightarrow> loader \<Rightarrow> loader" where
  "script_error sid l = (if scriptRef l = Some sid then onError l else l)"

definition doCleanup :: "loader \<Rightarrow> loader" where
  "doCleanup l =
     (let l1 = (if scriptRef l \<noteq> None then l\<lparr>scriptRef := None\<rparr> else l);
          l2 = (case unityInstanceRef l1 of
                  None \<Rightarrow> l1
                | Some i \<Rightarrow> (quit i l1)\<lparr>unityInstanceRef := None\<rparr>)
      in l2\<lparr>hook_unityInstance := None, createdRef := False, loadingPromiseRef := None,
            loadError := None, loadingState := IDLE\<rparr>)"

text \<open>
  \<^verbatim>\<open>reload\<close> in its three parts: up to the settle delay (\<open>False\<close> when a reload is
  already in flight), from the delay to \<^verbatim>\<open>await p\<close>, and the \<^verbatim>\<open>finally\<close>.
\<close>

definition reload_begin :: "loader \<Rightarrow> bool \<times> loader" where
  "reload_begin l =
     (if reloadingRef l then (False, l) else (True, doCleanup (l\<lparr>reloadingRef := True\<rparr>)))"

definition reload_resume :: "loader \<Rightarrow> loader" where
  "reload_resume l =
     (let l1 = injectLoader (l\<lparr>loadingState := RELOADING\<rparr>)
      in l1\<lparr>loadingPromiseRef := scriptRef l1\<rparr>)"

definition reload_finally :: "loader \<Rightarrow> loader" where
  "reload_finally l = l\<lparr>reloadingRef := False\<rparr>"

text \<open>The effect of \<^verbatim>\<open>useEffect\<close> and the function it returns.\<close>

definition mount :: "loader \<Rightarrow> loader" where
  "mount l =
     (let l1 = injectLoader (l\<lparr>mountedRef := True, loadingState := LOADING\<rparr>)
      in l1\<lparr>loadingPromiseRef := scriptRef l1\<rparr>)"

definition unmount :: "loader \<Rightarrow> loader" where
  "unmount l = doCleanup (l\<lparr>mountedRef := False\<rparr>)"

text \<open>
  What a reader of the hook sees of an attempt: the three state variables and the ref
  that the component hands to the bridge.
\<close>

definition observable :: "loader \<Rightarrow> loading_state \<times> load_error option \<times> handle option \<times> handle option" where
  "observable l = (loadingState l, loadError l, hook_unityInstance l, unityInstanceRef l)"

section \<open>Reading the trace\<close>

definition calls :: "effect list \<Rightarrow> (callee \<times> jsval list \<times> bool) list" where
  "calls tr = concat (map (\<lambda>e. case e of Called c args ok \<Rightarrow> [(c, args, ok)] | _ \<Rightarrow> []) tr)"

definition sent_calls :: "effect list \<Rightarrow> (nat \<times> string \<times> string \<times> jsval) list" where
  "sent_calls tr =
     concat (map (\<lambda>e. case e of Sent i ob me a \<Rightarrow> [(i, ob, me, a)] | _ \<Rightarrow> []) tr)"

definition parses :: "effect list \<Rightarrow> string list" where
  "parses tr = concat (map (\<lambda>e. case e of Parsed str \<Rightarrow> [str] | _ \<Rightarrow> []) tr)"

definition errors :: "effect list \<Rightarrow> nat" where
  "errors tr = length (filter (\<lambda>e. e = ConsoleError) tr)"

text \<open>The call without its outcome, and the calls that did not return normally.\<close>

definition site :: "callee \<times> jsval list \<times> bool \<Rightarrow> callee \<times> jsval list" where
  "site c = (fst c, fst (snd c))"

definition faults :: "effect list \<Rightarrow> nat" where
  "faults tr = length (filter (\<lambda>c. \<not> snd (snd c)) (calls tr))"

section \<open>Scenarios\<close>


text \<open>
  The pending promise of \<^verbatim>\<open>whenReady\<close> and its \<^verbatim>\<open>resolve\<close> function are set and
  dropped together, and the promise is pending as long as the bridge holds it.
\<close>

definition ready_inv :: "'h sys \<Rightarrow> bool" where
  "ready_inv s \<longleftrightarrow> readyResolve s = readyPromise s \<and>
     (case readyPromise s of
        None \<Rightarrow> True
      | Some p \<Rightarrow> p < length (promises s) \<and> promises s ! p = Pending)"

section \<open>A platform to run the scenarios on\<close>

text \<open>
  \<^verbatim>\<open>JSON.stringify\<close> on plain data, for numbers whose decimal notation JavaScript
  prints in full: \<open>None\<close> is the result \<^verbatim>\<open>undefined\<close>. The text is asked for
  plain data only, so the last equation is never used.
\<close>

fun digits :: "nat \<Rightarrow> nat \<Rightarrow> string" where
  "digits 0 n = []"
| "digits (Suc f) n =
     (if n < 10 then [char_of (48 + n)]
      else digits f (n div 10) @ [char_of (48 + n mod 10)])"

definition show_int :: "int \<Rightarrow> string" where
  "show_int n =
     (if n < 0 then CHR ''-'' # digits (Suc (nat (- n))) (nat (- n))
      else digits (Suc (nat n)) (nat n))"

definition hex_digit :: "nat \<Rightarrow> char" where
  "hex_digit d = (if d < 10 then char_of (48 + d) else char_of (87 + d))"

definition quote_char :: "char \<Rightarrow> string" where
  "quote_char c =
     (let n = (of_char c :: nat)
      in if c = CHR 0x22 then [CHR 0x5C, CHR 0x22]
         else if c = CHR 0x5C then [CHR 0x5C, CHR 0x5C]
         else if n = 8 then [CHR 0x5C, CHR ''b'']
         else if n = 9 then [CHR 0x5C, CHR ''t'']
         else if n = 10 then [CHR 0x5C, CHR ''n'']
         else if n = 12 then [CHR 0x5C, CHR ''f'']
         else if n = 13 then [CHR 0x5C, CHR ''r'']
         else if n < 32
         then [CHR 0x5C, CHR ''u'', CHR ''0'', CHR ''0'', hex_digit (n div 16), hex_digit (n mod 16)]
         else [c])"

definition quote_json :: "string \<Rightarrow> string" where
  "quote_json s = CHR 0x22 # concat (map quote_char s) @ [CHR 0x22]"

fun join :: "string list \<Rightarrow> string" where
  "join [] = []"
| "join [x] = x"
| "join (x # y # ys) = x @ CHR '','' # join (y # ys)"

fun json_text :: "jsval \<Rightarrow> string option" where
  "json_text JUndefined = None"
| "json_text JNull = Some ''null''"
| "json_text (JBool b) = Some (if b then ''true'' else ''false'')"
| "json_text (JNum n) = Some (show_int n)"
| "json_text (JStr s) = Some (quote_json s)"
| "json_text (JArr xs) =
     Some (CHR ''['' #
       join (map (\<lambda>x. case json_text x of None \<Rightarrow> ''null'' | Some t \<Rightarrow> t) xs) @ '']'')"
| "json_text (JObj ps) =
     Some (CHR ''{'' #
       join (concat (map (\<lambda>(k, v). case json_text v of
                                    None \<Rightarrow> []
                                  | Some t \<Rightarrow> [quote_json k @ CHR '':'' # t]) ps)) @ ''}'')"
| "json_text (JOpaque n) = None"

text \<open>Plain data: no object that is not plain anywhere inside.\<close>

fun plain :: "jsval \<Rightarrow> bool" where
  "plain (JArr xs) = (\<forall>x \<in> set xs. plain x)"
| "plain (JObj ps) = (\<forall>x \<in> set ps. plain (snd x))"
| "plain (JOpaque n) = False"
| "plain v = True"

text \<open>
  The objects of the examples that are not plain data refer to themselves: object 0 is
  \<^verbatim>\<open>const o = Object.create(null); o.self = o\<close>, every other one is
  \<^verbatim>\<open>const o = {}; o.self = o\<close>. \<^verbatim>\<open>JSON.stringify\<close> throws on a value that holds one
  of them (a circular structure). \<^verbatim>\<open>String\<close> is \<^verbatim>\<open>'[object Object]'\<close> on an object
  that has a \<^verbatim>\<open>toString\<close> and throws on object 0, which has none; an array is
  joined from its elements.
\<close>

fun string_text :: "jsval \<Rightarrow> string" where
  "string_text JUndefined = ''undefined''"
| "string_text JNull = ''null''"
| "string_text (JBool b) = (if b then ''true'' else ''false'')"
| "string_text (JNum n) = show_int n"
| "string_text (JStr s) = s"
| "string_text (JArr xs) =
     join (map (\<lambda>x. if x = JUndefined \<or> x = JNull then [] else string_text x) xs)"
| "string_text (JObj ps) = ''[object Object]''"
| "string_text (JOpaque n) = ''[object Object]''"

fun string_throws :: "jsval \<Rightarrow> bool" where
  "string_throws (JArr xs) = (\<exists>x \<in> set xs. string_throws x)"
| "string_throws (JOpaque n) = (n = 0)"
| "string_throws v = False"

text \<open>
  A platform for the examples: \<^verbatim>\<open>JSON.parse\<close> knows the one text of the examples
  that is JSON and throws on every other one, host callbacks numbered 100 and above throw,
  every other one returns, no callback dispatches an event, \<^verbatim>\<open>SendMessage\<close> throws on
  the method \<^verbatim>\<open>'Broken'\<close>, and the host state counts the calls made.
\<close>

definition example_env :: "nat env" where
  "example_env = \<lparr>
     JSON_parse = (\<lambda>str. if str = ''{\"a\":1}'' then Some (JObj [(''a'', JNum 1)]) else None),
     JSON_stringify = (\<lambda>v. if plain v
        then Some (case json_text v of None \<Rightarrow> JUndefined | Some t \<Rightarrow> JStr t) else None),
     String_of = string_text,
     String_throws = string_throws,
     invoke = (\<lambda>n args h. (n < 100, Suc h)),
     dispatches = (\<lambda>n args h. []),
     SendMessage = (\<lambda>i ob me a h. (me \<noteq> ''Broken'', Suc h)) \<rparr>"

text \<open>An instance, a message and a sequence of two \<^verbatim>\<open>send\<close> calls for the examples.\<close>

definition example_handle :: handle where
  "example_handle = \<lparr>inst_id = 7, has_SendMessage = True, has_Quit = True\<rparr>"

definition start_round :: outbound where
  "start_round = \<lparr>objectName = ''JSEventManager'', methodName = ''OnStartRound'',
     payload = JObj [(''userId'', JStr ''user-123'')]\<rparr>"


section \<open>What a dispatch is expected to call\<close>

definition handlers_of :: "'h sys \<Rightarrow> jsval \<Rightarrow> nat list" where
  "handlers_of s ty = (case map_of (handlers s) ty of None \<Rightarrow> [] | Some fs \<Rightarrow> fs)"

definition subs_of :: "'h sys \<Rightarrow> jsval \<Rightarrow> sub list" where
  "subs_of s ty = (case map_of (subscribers s) ty of None \<Rightarrow> [] | Some fs \<Rightarrow> fs)"

text \<open>
  The calls owed to an event of type \<open>ty\<close> with normalized payload \<open>n\<close>: every per-type
  handler with \<open>n\<close>, then every global observer with \<open>(ty, n, meta)\<close>, the forwarder
  of the bus calling every subscriber of the type with \<open>(n, meta)\<close>.
\<close>

definition observer_sites :: "sub list \<Rightarrow> jsval \<Rightarrow> jsval \<Rightarrow> jsval \<Rightarrow> gfn \<Rightarrow> (callee \<times> jsval list) list" where
  "observer_sites subs ty n meta g =
     (Observer g, [ty, n, meta]) #
       (case g of
          GForwarder \<Rightarrow> map (\<lambda>sb. (Subscriber sb, [n, meta])) subs
        | GHost k \<Rightarrow> [])"

definition dispatch_sites :: "'h sys \<Rightarrow> jsval \<Rightarrow> jsval \<Rightarrow> jsval \<Rightarrow> (callee \<times> jsval list) list" where
  "dispatch_sites s ty n meta =
     map (\<lambda>f. (Handler f, [n])) (handlers_of s ty) @
     concat (map (observer_sites (subs_of s ty) ty n meta) (globalHandlers s))"

text \<open>
  Normalization in the words of the specification: a textual payload is parsed, the
  original text is kept when that fails, and any other payload passes through.
\<close>

definition spec_normalized :: "'h env \<Rightarrow> jsval \<Rightarrow> jsval" where
  "spec_normalized E p =
     (case p of
        JStr str \<Rightarrow> (case JSON_parse E str of Some v \<Rightarrow> v | None \<Rightarrow> JStr str)
      | _ \<Rightarrow> p)"

text \<open>
  What the listener reads from an event, and the events it lets through its two guards.
  An event of the channel is an object, here built the way the engine's glue code builds
  it: \<^verbatim>\<open>new CustomEvent('UnityMessage', { detail: msg })\<close>.
\<close>

definition event_detail :: "jsval \<Rightarrow> jsval" where
  "event_detail e =
     (if truthy e \<and> has_prop ''detail'' e then get_prop e ''detail'' else JUndefined)"

definition event_type :: "jsval \<Rightarrow> jsval" where
  "event_type e = get_prop (event_detail e) ''type''"

definition event_payload :: "jsval \<Rightarrow> jsval" where
  "event_payload e = get_prop (event_detail e) ''payload''"

definition event_meta :: "jsval \<Rightarrow> jsval" where
  "event_meta e = get_prop (event_detail e) ''meta''"

definition accepted :: "jsval \<Rightarrow> bool" where
  "accepted e \<longleftrightarrow> truthy (event_detail e) \<and> typeof_object (event_detail e) \<and>
     event_type e \<noteq> JUndefined \<and> event_type e \<noteq> JNull"

definition custom_event :: "jsval \<Rightarrow> jsval" where
  "custom_event detail = JObj [(''type'', JStr ''UnityMessage''), (''detail'', detail)]"

definition message :: "jsval \<Rightarrow> jsval \<Rightarrow> jsval" where
  "message ty p = custom_event (JObj [(''type'', ty), (''payload'', p)])"

text \<open>The payload among the arguments of a call.\<close>

fun payload_arg :: "callee \<times> jsval list \<Rightarrow> jsval" where
  "payload_arg (Handler f, args) = args ! 0"
| "payload_arg (Observer g, args) = args ! 1"
| "payload_arg (Subscriber sb, args) = args ! 0"

text \<open>
  A bridge for the examples: two handlers for \<^verbatim>\<open>'GameResult'\<close>, the first of which
  throws, a global observer, and a subscriber of the bus.
\<close>

definition example_sys :: "nat sys" where
  "example_sys =
     snd (subscribe (JStr ''GameResult'') (Some (SHost 3))
       (registerGlobalHandler (GHost 2)
         (registerHandler (JStr ''GameResult'') 1
           (registerHandler (JStr ''GameResult'') 100 (init_sys 0)))))"

section \<open>The invariant of the event bus\<close>

text \<open>How often the forwarder of the bus occurs among the global observers of the bridge.\<close>

definition forwarders :: "'h sys \<Rightarrow> nat" where
  "forwarders s = count_list (globalHandlers s) GForwarder"

text \<open>
  The global observers form a set, the subscribers form a map of sets, the flag
  \<^verbatim>\<open>_installed\<close> tells whether the forwarder is among the global observers, and it is
  set exactly when the bus has a subscriber.
\<close>

definition bus_inv :: "'h sys \<Rightarrow> bool" where
  "bus_inv s \<longleftrightarrow> distinct (globalHandlers s) \<and>
     distinct (map fst (subscribers s)) \<and>
     list_all (\<lambda>x. distinct (snd x)) (subscribers s) \<and>
     installed s = (GForwarder \<in> set (globalHandlers s)) \<and>
     installed s = (0 < subscriberCount s)"

text \<open>A sequence of inbound events, up to the first one on which the listener throws.\<close>

fun dispatch_all :: "'h env \<Rightarrow> jsval list \<Rightarrow> 'h sys \<Rightarrow> exn + 'h sys" where
  "dispatch_all E [] s = Inr s"
| "dispatch_all E (e # es) s =
     (case windowUnityMessageListener E e s of
        Inl x \<Rightarrow> Inl x
      | Inr s1 \<Rightarrow> dispatch_all E es s1)"

text \<open>How often a subscriber of the bus was called.\<close>

definition called :: "sub \<Rightarrow> effect list \<Rightarrow> nat" where
  "called sb tr = count_list (map fst (calls tr)) (Subscriber sb)"

text \<open>A bus for the examples: two types subscribed, the first unsubscribed again.\<close>

definition example_bus :: "nat sys" where
  "example_bus =
     call_unsub (fst (subscribe (JStr ''GameResult'') (Some (SHost 3)) (init_sys (0::nat))))
       (snd (subscribe (JStr ''UnityReady'') (Some (SHost 4))
          (snd (subscribe (JStr ''GameResult'') (Some (SHost 3)) (init_sys (0::nat))))))"

text \<open>A bus for the examples: one \<^verbatim>\<open>once\<close> subscription whose handler throws.\<close>

definition example_once :: "nat sys" where
  "example_once = once (JStr ''GameResult'') (Some 100) (init_sys (0::nat))"

text \<open>
  Two overlapping loads: the component mounts and its loader script loads, so that
  attempt 1 is waiting for \<^verbatim>\<open>createUnityInstance\<close>; \<^verbatim>\<open>reload\<close> is called and the new
  loader script loads, so that attempt 2 is waiting too.
\<close>

definition overlapping_loads :: loader where
  "overlapping_loads =
     snd (script_load 1 True True
       (reload_resume (snd (reload_begin
         (snd (script_load 0 True True (mount init_loader)))))))"

definition second_handle :: handle where
  "second_handle = \<lparr>inst_id = 8, has_SendMessage = True, has_Quit = True\<rparr>"

text \<open>
  \<^verbatim>\<open>send(payload, objectName, methodName, queue = true)\<close> of \<^verbatim>\<open>unityApi.js\<close>, the
  function host code calls: a name is truthy when it is not empty.
\<close>

definition api_send :: "'h env \<Rightarrow> jsval \<Rightarrow> string \<Rightarrow> string \<Rightarrow> bool option \<Rightarrow> 'h sys \<Rightarrow> bool \<times> 'h sys" where
  "api_send E p obj meth queue s =
     (if obj \<noteq> [] \<and> meth \<noteq> []
      then send E obj meth p (Some (case queue of None \<Rightarrow> True | Some q \<Rightarrow> q)) s
      else (False, s))"

section \<open>Outbound calls on any payload\<close>

text \<open>
  \<^verbatim>\<open>doSend\<close> on every payload. \<^verbatim>\<open>String(payload)\<close> is called in the \<^verbatim>\<open>catch\<close>
  block of \<^verbatim>\<open>JSON.stringify(payload)\<close>, under no \<^verbatim>\<open>try\<close> of its own: what it
  throws leaves \<^verbatim>\<open>doSend\<close>.
\<close>

definition send_arg_exn :: "'h env \<Rightarrow> jsval \<Rightarrow> exn + jsval" where
  "send_arg_exn E p =
     (if p \<noteq> JUndefined \<and> \<not> is_string p
      then (case JSON_stringify E p of
              Some v \<Rightarrow> Inr v
            | None \<Rightarrow> if String_throws E p then Inl TypeError else Inr (JStr (String_of E p)))
      else Inr p)"

definition doSend_exn :: "'h env \<Rightarrow> string \<Rightarrow> string \<Rightarrow> jsval \<Rightarrow> 'h sys \<Rightarrow> exn + (bool \<times> 'h sys)" where
  "doSend_exn E obj meth p s =
     (case unityInstance s of
        None \<Rightarrow> Inr (False, s)
      | Some i \<Rightarrow>
          if \<not> has_SendMessage i then Inr (False, s)
          else
            case send_arg_exn E p of
              Inl x \<Rightarrow> Inl x
            | Inr arg \<Rightarrow>
                let (ok, h') = SendMessage E (inst_id i) obj meth arg (host s);
                    s' = emit (Sent (inst_id i) obj meth arg) (s\<lparr>host := h'\<rparr>)
                in Inr (if ok then (True, s') else (False, emit ConsoleError s')))"

text \<open>
  The parameter \<^verbatim>\<open>{ queue = true } = {}\<close> of \<^verbatim>\<open>send\<close>, for any fourth argument:
  \<^verbatim>\<open>undefined\<close> (the argument left out) is replaced by \<^verbatim>\<open>{}\<close>, reading the property
  of \<^verbatim>\<open>null\<close> throws, and a property that is \<^verbatim>\<open>undefined\<close> is replaced by
  \<^verbatim>\<open>true\<close>.
\<close>

definition queue_option :: "jsval \<Rightarrow> exn + jsval" where
  "queue_option opts =
     (if opts = JNull then Inl TypeError
      else
        let q = get_prop (if opts = JUndefined then JObj [] else opts) ''queue''
        in Inr (if q = JUndefined then JBool True else q))"

text \<open>\<^verbatim>\<open>send\<close> on every payload and every fourth argument.\<close>

definition send_exn :: "'h env \<Rightarrow> string \<Rightarrow> string \<Rightarrow> jsval \<Rightarrow> jsval \<Rightarrow> 'h sys \<Rightarrow> exn + (bool \<times> 'h sys)" where
  "send_exn E obj meth p opts s =
     (case queue_option opts of
        Inl x \<Rightarrow> Inl x
      | Inr queue \<Rightarrow>
          if (case unityInstance s of None \<Rightarrow> False | Some i \<Rightarrow> has_SendMessage i)
          then doSend_exn E obj meth p s
          else if truthy queue
          then Inr (True, s\<lparr>queuedSends := queuedSends s @
                  [\<lparr>objectName = obj, methodName = meth, payload = p\<rparr>]\<rparr>)
          else Inr (False, s))"

text \<open>
  The loop of \<^verbatim>\<open>setInstance\<close> over the queue, on every payload: each call is made as
  \<^verbatim>\<open>try { doSend(...) } catch (e) { /* swallow */ }\<close>.
\<close>

fun flush_exn :: "'h env \<Rightarrow> outbound list \<Rightarrow> 'h sys \<Rightarrow> 'h sys" where
  "flush_exn E [] s = s"
| "flush_exn E (item # items) s =
     flush_exn E items
       (case doSend_exn E (objectName item) (methodName item) (payload item) s of
          Inl x \<Rightarrow> s
        | Inr r \<Rightarrow> snd r)"

definition setInstance_exn :: "'h env \<Rightarrow> handle option \<Rightarrow> 'h sys \<Rightarrow> 'h sys" where
  "setInstance_exn E inst s =
     (let s1 = s\<lparr>unityInstance := inst\<rparr>;
          s2 = (if inst \<noteq> None \<and> queuedSends s1 \<noteq> []
                then (flush_exn E (queuedSends s1) s1)\<lparr>queuedSends := []\<rparr> else s1)
      in case readyResolve s2 of
           None \<Rightarrow> s2
         | Some p \<Rightarrow> s2\<lparr>promises := resolve_promise p (unityInstance s2) (promises s2),
                        readyPromise := None, readyResolve := None\<rparr>)"

text \<open>
  \<^verbatim>\<open>send(payload, objectName, methodName, queue = true)\<close> of \<^verbatim>\<open>unityApi.js\<close> on every
  payload; it hands the bridge the options object \<^verbatim>\<open>{ queue }\<close>.
\<close>

definition api_send_exn :: "'h env \<Rightarrow> jsval \<Rightarrow> string \<Rightarrow> string \<Rightarrow> jsval \<Rightarrow> 'h sys \<Rightarrow> exn + (bool \<times> 'h sys)" where
  "api_send_exn E p obj meth queue s =
     (if obj \<noteq> [] \<and> meth \<noteq> []
      then send_exn E obj meth p
             (JObj [(''queue'', if queue = JUndefined then JBool True else queue)]) s
      else Inr (False, s))"

text \<open>
  The option of \<^verbatim>\<open>send\<close> as the section on outbound calls has it, for a fourth argument
  that is not \<^verbatim>\<open>null\<close>.
\<close>

definition queue_flag :: "jsval \<Rightarrow> bool option" where
  "queue_flag opts =
     (let q = get_prop opts ''queue''
      in if q = JUndefined then None else Some (truthy q))"

text \<open>
  A bridge that holds the handle of the examples, and the message of the examples with
  object 0 for its payload, queued.
\<close>

definition ready_sys :: "nat sys" where
  "ready_sys = (init_sys 0)\<lparr>unityInstance := Some example_handle\<rparr>"

definition queued_opaque :: "nat sys" where
  "queued_opaque = (init_sys 0)\<lparr>queuedSends := [start_round\<lparr>payload := JOpaque 0\<rparr>]\<rparr>"

section \<open>Callbacks that dispatch while they run\<close>

text \<open>
  A host callback may hand an event of the channel to \<^verbatim>\<open>window.dispatchEvent\<close> while
  it runs; the listener of the bridge then runs inside the callback, before it returns.
  The functions of the dispatch are given here with such callbacks. They take the
  dispatcher \<open>d\<close> that the callbacks reach; \<open>None\<close> is a dispatch that does not come
  to an end within the depth of nesting allowed.
\<close>

type_synonym 'h dispatcher = "jsval \<Rightarrow> 'h sys \<Rightarrow> 'h sys option"

fun run_events :: "'h dispatcher \<Rightarrow> jsval list \<Rightarrow> 'h sys \<Rightarrow> 'h sys option" where
  "run_events d [] s = Some s"
| "run_events d (e # es) s =
     (case d e s of None \<Rightarrow> None | Some s1 \<Rightarrow> run_events d es s1)"

text \<open>
  Running host callback \<open>n\<close>: its own effect on the host, the events it dispatches, and
  its outcome.
\<close>

definition call_host :: "'h dispatcher \<Rightarrow> 'h env \<Rightarrow> nat \<Rightarrow> jsval list \<Rightarrow> 'h sys \<Rightarrow> (bool \<times> 'h sys) option" where
  "call_host d E n args s =
     (let (ok, h') = invoke E n args (host s)
      in case run_events d (dispatches E n args (host s)) (s\<lparr>host := h'\<rparr>) of
           None \<Rightarrow> None
         | Some s1 \<Rightarrow> Some (ok, s1))"

fun call_sub_re :: "'h dispatcher \<Rightarrow> 'h env \<Rightarrow> sub \<Rightarrow> jsval list \<Rightarrow> 'h sys \<Rightarrow> (bool \<times> 'h sys) option" where
  "call_sub_re d E (SHost n) args s =
     (case call_host d E n args s of
        None \<Rightarrow> None
      | Some (ok, s0) \<Rightarrow> Some (ok, emit (Called (Subscriber (SHost n)) args ok) s0))"
| "call_sub_re d E (SOnce w ty h) args s =
     (case call_host d E h args s of
        None \<Rightarrow> None
      | Some (ok, s0) \<Rightarrow>
          let s1 = emit (Called (Subscriber (SOnce w ty h)) args ok) s0
          in Some (ok, unsubscribe ty (SOnce w ty h) s1))"

fun forward_loop_re :: "'h dispatcher \<Rightarrow> 'h env \<Rightarrow> sub list \<Rightarrow> jsval list \<Rightarrow> 'h sys \<Rightarrow> 'h sys option" where
  "forward_loop_re d E [] args s = Some s"
| "forward_loop_re d E (fn # fns) args s =
     (case call_sub_re d E fn args s of
        None \<Rightarrow> None
      | Some (ok, s1) \<Rightarrow>
          forward_loop_re d E fns args (if ok then s1 else emit ConsoleError s1))"

definition globalForwarder_re :: "'h dispatcher \<Rightarrow> 'h env \<Rightarrow> jsval \<Rightarrow> jsval \<Rightarrow> jsval \<Rightarrow> 'h sys \<Rightarrow> 'h sys option" where
  "globalForwarder_re d E ty p meta s =
     (case map_of (subscribers s) ty of
        None \<Rightarrow> Some s
      | Some fs \<Rightarrow> if fs = [] then Some s else forward_loop_re d E fs [p, meta] s)"

fun handler_loop_re :: "'h dispatcher \<Rightarrow> 'h env \<Rightarrow> nat list \<Rightarrow> jsval \<Rightarrow> 'h sys \<Rightarrow> 'h sys option" where
  "handler_loop_re d E [] p s = Some s"
| "handler_loop_re d E (fn # fns) p s =
     (case call_host d E fn [p] s of
        None \<Rightarrow> None
      | Some (ok, s0) \<Rightarrow>
          let s1 = emit (Called (Handler fn) [p] ok) s0
          in handler_loop_re d E fns p (if ok then s1 else emit ConsoleError s1))"

definition emitToHandlers_re :: "'h dispatcher \<Rightarrow> 'h env \<Rightarrow> jsval \<Rightarrow> jsval \<Rightarrow> 'h sys \<Rightarrow> 'h sys option" where
  "emitToHandlers_re d E ev p s =
     (case map_of (handlers s) ev of None \<Rightarrow> Some s | Some fs \<Rightarrow> handler_loop_re d E fs p s)"

fun call_global_re :: "'h dispatcher \<Rightarrow> 'h env \<Rightarrow> gfn \<Rightarrow> jsval \<Rightarrow> jsval \<Rightarrow> jsval \<Rightarrow> 'h sys \<Rightarrow> (bool \<times> 'h sys) option" where
  "call_global_re d E (GHost n) ty p meta s =
     (case call_host d E n [ty, p, meta] s of
        None \<Rightarrow> None
      | Some (ok, s0) \<Rightarrow> Some (ok, emit (Called (Observer (GHost n)) [ty, p, meta] ok) s0))"
| "call_global_re d E GForwarder ty p meta s =
     (case globalForwarder_re d E ty p meta
             (emit (Called (Observer GForwarder) [ty, p, meta] True) s) of
        None \<Rightarrow> None
      | Some s1 \<Rightarrow> Some (True, s1))"

fun global_loop_re :: "'h dispatcher \<Rightarrow> 'h env \<Rightarrow> gfn list \<Rightarrow> jsval \<Rightarrow> jsval \<Rightarrow> jsval \<Rightarrow> 'h sys \<Rightarrow> 'h sys option" where
  "global_loop_re d E [] ty p meta s = Some s"
| "global_loop_re d E (fn # fns) ty p meta s =
     (case call_global_re d E fn ty p meta s of
        None \<Rightarrow> None
      | Some (ok, s1) \<Rightarrow>
          global_loop_re d E fns ty p meta (if ok then s1 else emit ConsoleError s1))"

definition emitToGlobalHandlers_re :: "'h dispatcher \<Rightarrow> 'h env \<Rightarrow> jsval \<Rightarrow> jsval \<Rightarrow> jsval \<Rightarrow> 'h sys \<Rightarrow> 'h sys option" where
  "emitToGlobalHandlers_re d E ty p meta s = global_loop_re d E (globalHandlers s) ty p meta s"

definition listener_re :: "'h dispatcher \<Rightarrow> 'h env \<Rightarrow> jsval \<Rightarrow> 'h sys \<Rightarrow> (exn + 'h sys) option" where
  "listener_re d E e s =
     (if truthy e \<and> \<not> typeof_object e then Some (Inl TypeError)
      else
        let detail = (if truthy e \<and> has_prop ''detail'' e then get_prop e ''detail''
                      else JUndefined)
        in if \<not> truthy detail \<or> \<not> typeof_object detail then Some (Inr s)
           else
             let ty = get_prop detail ''type'';
                 p = get_prop detail ''payload''
             in if ty = JUndefined \<or> ty = JNull then Some (Inr s)
                else
                  let (normalized, s1) = normalize E p s
                  in case emitToHandlers_re d E ty normalized s1 of
                       None \<Rightarrow> None
                     | Some s2 \<Rightarrow>
                         (case emitToGlobalHandlers_re d E ty normalized
                                 (get_prop detail ''meta'') s2 of
                            None \<Rightarrow> None
                          | Some s3 \<Rightarrow> Some (Inr s3)))"

text \<open>
  \<^verbatim>\<open>window.dispatchEvent(e)\<close> called by a callback, with \<open>k\<close> levels of nesting
  allowed: the listener of the bridge runs, and what it throws is reported by the
  platform and does not reach the caller.
\<close>

primrec dispatchEvent :: "nat \<Rightarrow> 'h env \<Rightarrow> jsval \<Rightarrow> 'h sys \<Rightarrow> 'h sys option" where
  "dispatchEvent 0 E e s = None"
| "dispatchEvent (Suc k) E e s =
     (case listener_re (dispatchEvent k E) E e s of
        None \<Rightarrow> None
      | Some (Inl x) \<Rightarrow> Some s
      | Some (Inr s1) \<Rightarrow> Some s1)"

text \<open>
  A sequence of events arriving from the engine, each handled by the listener with
  \<open>k\<close> levels of nesting allowed to its callbacks, up to the first one on which the
  listener throws.
\<close>

fun dispatch_all_re :: "nat \<Rightarrow> 'h env \<Rightarrow> jsval list \<Rightarrow> 'h sys \<Rightarrow> (exn + 'h sys) option" where
  "dispatch_all_re k E [] s = Some (Inr s)"
| "dispatch_all_re k E (e # es) s =
     (case listener_re (dispatchEvent k E) E e s of
        None \<Rightarrow> None
      | Some (Inl x) \<Rightarrow> Some (Inl x)
      | Some (Inr s1) \<Rightarrow> dispatch_all_re k E es s1)"

text \<open>How often a subscriber was called by the end of a dispatch that came to an end.\<close>

definition called_after :: "sub \<Rightarrow> (exn + 'h sys) option \<Rightarrow> nat option" where
  "called_after sb r =
     (case r of
        Some (Inr s) \<Rightarrow> Some (called sb (trace s))
      | _ \<Rightarrow> None)"

text \<open>
  A platform for the examples on which callback 42 dispatches a \<^verbatim>\<open>'GameResult'\<close> event
  the first time it runs (the host state counts the calls made):
  \<^verbatim>\<open>let first = true; const h = () => { if (first) { first = false;
  window.dispatchEvent(new CustomEvent('UnityMessage', { detail: { type: 'GameResult' } })) } }\<close>,
  and a bus with \<^verbatim>\<open>once('GameResult', h)\<close>.
\<close>

definition reentrant_env :: "nat env" where
  "reentrant_env = example_env\<lparr>dispatches :=
     (\<lambda>n args h. if n = 42 \<and> h = 0 then [message (JStr ''GameResult'') JUndefined] else [])\<rparr>"

definition reentrant_once :: "nat sys" where
  "reentrant_once = once (JStr ''GameResult'') (Some 42) (init_sys (0::nat))"

section \<open>Maps and sets of JavaScript, proved\<close>

lemma map_of_map_set:
  "map_of (map_set k v m) k' = (if k' = k then Some v else map_of m k')"
proof (cases "k \<in> fst ` set m")
  case True
  have "map_of (map (\<lambda>(a, b). if a = k then (a, v) else (a, b)) m) k' =
      (if k' = k then (case map_of m k of None \<Rightarrow> None | Some x \<Rightarrow> Some v) else map_of m k')"
    by (induction m) auto
  moreover have "map_of m k \<noteq> None"
    using True by (simp add: map_of_eq_None_iff)
  ultimately show ?thesis
    using True by (auto simp: map_set_def)
next
  case False
  then have "map_of m k = None"
    by (simp add: map_of_eq_None_iff)
  then show ?thesis
    using False by (auto simp: map_set_def map_add_def split: option.splits)
qed

lemma map_of_map_delete:
  "map_of (map_delete k m) k' = (if k' = k then None else map_of m k')"
  by (induction m) (auto simp: map_delete_def)

lemma set_map_delete: "set (map_delete k m) = {x \<in> set m. fst x \<noteq> k}"
  by (auto simp: map_delete_def)

lemma set_map_set: "x \<in> set (map_set k v m) \<Longrightarrow> x = (k, v) \<or> x \<in> set m"
  by (auto simp: map_set_def split: if_splits)

lemma map_delete_set_empty:
  assumes "\<forall>x \<in> set m. snd x = []"
  shows "\<forall>x \<in> set (map_delete k (map_set k [] m)). snd x = []"
proof
  fix x
  assume "x \<in> set (map_delete k (map_set k [] m))"
  then have "x \<in> set (map_set k [] m)"
    by (simp add: set_map_delete)
  then have "x = (k, []) \<or> x \<in> set m"
    by (rule set_map_set)
  then show "snd x = []"
    using assms by auto
qed

lemma distinct_set_add: "distinct xs \<Longrightarrow> distinct (set_add x xs)"
  by (simp add: set_add_def)

lemma distinct_set_delete: "distinct xs \<Longrightarrow> distinct (set_delete x xs)"
  by (simp add: set_delete_def)

lemma set_set_add [simp]: "set (set_add x xs) = insert x (set xs)"
  by (auto simp: set_add_def)

lemma set_set_delete [simp]: "set (set_delete x xs) = set xs - {x}"
  by (auto simp: set_delete_def)

lemma count_list_distinct:
  "distinct xs \<Longrightarrow> count_list xs x = (if x \<in> set xs then 1 else 0)"
  by (induction xs) auto

lemma keys_map_update:
  "fst \<circ> (\<lambda>(k', v'). if k' = k then (k', v) else (k', v')) = fst"
  by (auto simp: fun_eq_iff)

lemma keys_map_set:
  "distinct (map fst m) \<Longrightarrow> distinct (map fst (map_set k v m))"
  by (simp add: map_set_def keys_map_update)

lemma keys_map_delete:
  "distinct (map fst m) \<Longrightarrow> distinct (map fst (map_delete k m))"
  by (simp add: map_delete_def distinct_map_filter)

lemma sets_map_set:
  "list_all (\<lambda>x. distinct (snd x)) m \<Longrightarrow> distinct v \<Longrightarrow>
   list_all (\<lambda>x. distinct (snd x)) (map_set k v m)"
  by (auto simp: map_set_def list_all_iff)

lemma sets_map_delete:
  "list_all (\<lambda>x. distinct (snd x)) m \<Longrightarrow> list_all (\<lambda>x. distinct (snd x)) (map_delete k m)"
  by (auto simp: map_delete_def list_all_iff)

section \<open>The bridge: outbound calls, proved\<close>

lemma sent_calls_append [simp]: "sent_calls (xs @ ys) = sent_calls xs @ sent_calls ys"
  by (simp add: sent_calls_def)

lemma sent_calls_simps [simp]:
  "sent_calls [] = []"
  "sent_calls (Sent i ob me a # tr) = (i, ob, me, a) # sent_calls tr"
  "sent_calls (ConsoleError # tr) = sent_calls tr"
  "sent_calls (Parsed x # tr) = sent_calls tr"
  "sent_calls (Called c args ok # tr) = sent_calls tr"
  by (simp_all add: sent_calls_def)

lemma send_arg_string: "is_string p \<Longrightarrow> send_arg E p = p"
  by (simp add: send_arg_def)

lemma send_arg_json:
  "JSON_stringify E JUndefined = Some JUndefined \<Longrightarrow> \<not> is_string p \<Longrightarrow>
   JSON_stringify E p = Some v \<Longrightarrow> send_arg E p = v"
  by (auto simp: send_arg_def)

lemma doSend_with_handle:
  "unityInstance s = Some i \<Longrightarrow> has_SendMessage i \<Longrightarrow>
   SendMessage E (inst_id i) ob me (send_arg E p) (host s) = (ok, h') \<Longrightarrow>
   doSend E ob me p s =
     (ok, s\<lparr>host := h', trace := trace s @ Sent (inst_id i) ob me (send_arg E p) #
                                  (if ok then [] else [ConsoleError])\<rparr>)"
  by (simp add: doSend_def emit_def Let_def)

lemma doSend_fields:
  "unityInstance (snd (doSend E ob me p s)) = unityInstance s"
  "queuedSends (snd (doSend E ob me p s)) = queuedSends s"
  "promises (snd (doSend E ob me p s)) = promises s"
  "readyPromise (snd (doSend E ob me p s)) = readyPromise s"
  "readyResolve (snd (doSend E ob me p s)) = readyResolve s"
  by (simp_all add: doSend_def emit_def Let_def split: option.splits prod.splits)

lemma doSend_sent:
  "unityInstance s = Some i \<Longrightarrow> has_SendMessage i \<Longrightarrow>
   sent_calls (trace (snd (doSend E ob me p s))) =
     sent_calls (trace s) @ [(inst_id i, ob, me, send_arg E p)]"
  by (simp add: doSend_def emit_def Let_def split: prod.splits)

lemma flush_fields:
  "unityInstance (flush E items s) = unityInstance s"
  "queuedSends (flush E items s) = queuedSends s"
  "promises (flush E items s) = promises s"
  "readyPromise (flush E items s) = readyPromise s"
  "readyResolve (flush E items s) = readyResolve s"
  by (induction items arbitrary: s; simp add: doSend_fields)+

lemma flush_sent:
  "unityInstance s = Some i \<Longrightarrow> has_SendMessage i \<Longrightarrow>
   sent_calls (trace (flush E items s)) =
     sent_calls (trace s) @
       map (\<lambda>m. (inst_id i, objectName m, methodName m, send_arg E (payload m))) items"
proof (induction items arbitrary: s)
  case Nil
  then show ?case by simp
next
  case (Cons m items)
  let ?s1 = "snd (doSend E (objectName m) (methodName m) (payload m) s)"
  have "unityInstance ?s1 = Some i"
    using Cons.prems by (simp add: doSend_fields)
  with Cons show ?case
    by (simp add: doSend_sent)
qed


lemma setInstance_sent:
  "has_SendMessage i \<Longrightarrow>
   sent_calls (trace (setInstance E (Some i) s)) =
     sent_calls (trace s) @
       map (\<lambda>m. (inst_id i, objectName m, methodName m, send_arg E (payload m)))
         (queuedSends s)"
  by (auto simp: setInstance_def Let_def flush_sent flush_fields split: option.splits)


lemma setInstance_instance: "unityInstance (setInstance E x s) = x"
  by (auto simp: setInstance_def Let_def flush_fields split: option.splits)

lemma example_stringify:
  "JSON_stringify example_env (JObj [(''userId'', JStr ''user-123'')]) =
     Some (JStr ''{\"userId\":\"user-123\"}'')"
  "JSON_stringify example_env JUndefined = Some JUndefined"
  by (simp_all add: example_env_def quote_json_def quote_char_def)

text \<open>
  On a payload on which \<^verbatim>\<open>String\<close> returns and with an options object or none,
  \<^verbatim>\<open>send\<close> returns a boolean: what \<^verbatim>\<open>JSON.stringify\<close> and \<^verbatim>\<open>SendMessage\<close>
  throw inside it is caught. With a handle that has
  \<^verbatim>\<open>SendMessage\<close> it calls it once, with the payload itself when that is a string and
  with what \<^verbatim>\<open>JSON.stringify\<close> returns for it otherwise (\<^verbatim>\<open>undefined\<close> is passed
  as it is, which is what \<^verbatim>\<open>JSON.stringify\<close> returns for it), and returns whether
  the call returned; a call that throws is logged. Without a handle it appends the
  message to the queue and returns \<open>True\<close>, unless \<^verbatim>\<open>queue\<close> is false: then it
  returns \<open>False\<close> and changes nothing.
\<close>

theorem send_reports_boolean:
  "(unityInstance s = Some i \<and> has_SendMessage i \<and>
      SendMessage E (inst_id i) ob me (send_arg E p) (host s) = (ok, h') \<longrightarrow>
      send E ob me p queue s =
        (ok, s\<lparr>host := h', trace := trace s @ Sent (inst_id i) ob me (send_arg E p) #
                                     (if ok then [] else [ConsoleError])\<rparr>))
   \<and> (is_string p \<longrightarrow> send_arg E p = p)
   \<and> (JSON_stringify E JUndefined = Some JUndefined \<and> \<not> is_string p \<and>
        JSON_stringify E p = Some v \<longrightarrow> send_arg E p = v)
   \<and> (unityInstance s = None \<and> queue \<noteq> Some False \<longrightarrow>
        send E ob me p queue s =
          (True, s\<lparr>queuedSends := queuedSends s @
                     [\<lparr>objectName = ob, methodName = me, payload = p\<rparr>]\<rparr>))
   \<and> (unityInstance s = None \<and> queue = Some False \<longrightarrow>
        send E ob me p queue s = (False, s))"
  by (auto simp: send_def doSend_with_handle send_arg_string send_arg_json split: option.splits)

theorem send_reports_boolean_witness:
  "send example_env ''JSEventManager'' ''OnStartRound'' (JObj [(''userId'', JStr ''user-123'')]) None
     ((init_sys 0)\<lparr>unityInstance := Some example_handle\<rparr>) =
     (True, (init_sys 0)\<lparr>unityInstance := Some example_handle, host := 1,
        trace := [Sent 7 ''JSEventManager'' ''OnStartRound'' (JStr ''{\"userId\":\"user-123\"}'')]\<rparr>)
   \<and> send example_env ''JSEventManager'' ''Broken'' (JStr ''hello'') None
     ((init_sys 0)\<lparr>unityInstance := Some example_handle\<rparr>) =
     (False, (init_sys 0)\<lparr>unityInstance := Some example_handle, host := 1,
        trace := [Sent 7 ''JSEventManager'' ''Broken'' (JStr ''hello''), ConsoleError]\<rparr>)
   \<and> send example_env ''JSEventManager'' ''OnStartRound'' JNull (Some True) (init_sys 0) =
     (True, (init_sys 0)\<lparr>queuedSends :=
        [\<lparr>objectName = ''JSEventManager'', methodName = ''OnStartRound'', payload = JNull\<rparr>]\<rparr>)
   \<and> send example_env ''JSEventManager'' ''OnStartRound'' JNull (Some False) (init_sys 0) =
     (False, init_sys 0)"
proof -
  let ?s = "(init_sys (0::nat))\<lparr>unityInstance := Some example_handle\<rparr>"
  let ?p = "JObj [(''userId'', JStr ''user-123'')]"
  let ?j = "JStr ''{\"userId\":\"user-123\"}''"
  have arg: "send_arg example_env ?p = ?j"
    using send_reports_boolean [where E = example_env and p = ?p and v = ?j] example_stringify
    by simp
  have arg2: "send_arg example_env (JStr ''hello'') = JStr ''hello''"
    using send_reports_boolean [where E = example_env and p = "JStr ''hello''"]
    by simp
  have sm: "SendMessage example_env 7 ''JSEventManager'' ''OnStartRound'' ?j 0 = (True, 1)"
    "SendMessage example_env 7 ''JSEventManager'' ''Broken'' (JStr ''hello'') 0 = (False, 1)"
    by (simp_all add: example_env_def)
  have a: "send example_env ''JSEventManager'' ''OnStartRound'' ?p None ?s =
     (True, (init_sys 0)\<lparr>unityInstance := Some example_handle, host := 1,
        trace := [Sent 7 ''JSEventManager'' ''OnStartRound'' ?j]\<rparr>)"
    using send_reports_boolean [where s = ?s and i = example_handle and E = example_env
        and ob = "''JSEventManager''" and me = "''OnStartRound''" and p = ?p and ok = True
        and h' = 1 and queue = None] arg sm
    by (simp add: example_handle_def init_sys_def)
  have b: "send example_env ''JSEventManager'' ''Broken'' (JStr ''hello'') None ?s =
     (False, (init_sys 0)\<lparr>unityInstance := Some example_handle, host := 1,
        trace := [Sent 7 ''JSEventManager'' ''Broken'' (JStr ''hello''), ConsoleError]\<rparr>)"
    using send_reports_boolean [where s = ?s and i = example_handle and E = example_env
        and ob = "''JSEventManager''" and me = "''Broken''" and p = "JStr ''hello''"
        and ok = False and h' = 1 and queue = None] arg2 sm
    by (simp add: example_handle_def init_sys_def)
  have c: "send example_env ''JSEventManager'' ''OnStartRound'' JNull (Some True) (init_sys 0) =
     (True, (init_sys 0)\<lparr>queuedSends :=
        [\<lparr>objectName = ''JSEventManager'', methodName = ''OnStartRound'', payload = JNull\<rparr>]\<rparr>)"
    using send_reports_boolean [where s = "init_sys 0" and E = example_env
        and ob = "''JSEventManager''" and me = "''OnStartRound''" and p = JNull
        and queue = "Some True"]
    by (simp add: init_sys_def)
  have d: "send example_env ''JSEventManager'' ''OnStartRound'' JNull (Some False) (init_sys 0) =
     (False, init_sys 0)"
    using send_reports_boolean [where s = "init_sys 0" and E = example_env
        and ob = "''JSEventManager''" and me = "''OnStartRound''" and p = JNull
        and queue = "Some False"]
    by (simp add: init_sys_def)
  show ?thesis
    using a b c d by blast
qed



text \<open>The scenario of the specification, through the public \<^verbatim>\<open>send\<close>.\<close>

lemma api_send_scenario:
  "api_send example_env (JObj [(''userId'', JStr ''user-123'')]) ''JSEventManager''
     ''OnStartRound'' None (init_sys 0) =
     (True, (init_sys 0)\<lparr>queuedSends := [start_round]\<rparr>)"
  "sent_calls (trace (setInstance example_env (Some example_handle)
     ((init_sys 0)\<lparr>queuedSends := [start_round]\<rparr>))) =
     [(7, ''JSEventManager'', ''OnStartRound'', JStr ''{\"userId\":\"user-123\"}'')]"
  using example_stringify
  by (simp_all add: api_send_def send_def init_sys_def start_round_def setInstance_sent
        example_handle_def send_arg_def)

text \<open>
  The outbound calls on any payload: where they throw, and that they are the functions of
  the section on outbound calls everywhere else.
\<close>

lemma send_arg_exn_cases:
  "send_arg_exn E p =
     (if p \<noteq> JUndefined \<and> \<not> is_string p \<and> JSON_stringify E p = None \<and> String_throws E p
      then Inl TypeError else Inr (send_arg E p))"
  by (simp add: send_arg_exn_def send_arg_def split: option.splits)

lemma doSend_exn_doSend:
  "send_arg_exn E p \<noteq> Inl TypeError \<Longrightarrow> doSend_exn E ob me p s = Inr (doSend E ob me p s)"
  by (auto simp: send_arg_exn_cases doSend_exn_def doSend_def Let_def
           split: option.splits prod.splits if_splits)

lemma doSend_exn_throws:
  "unityInstance s = Some i \<Longrightarrow> has_SendMessage i \<Longrightarrow> send_arg_exn E p = Inl TypeError \<Longrightarrow>
   doSend_exn E ob me p s = Inl TypeError"
  by (simp add: doSend_exn_def)

lemma send_exn_send:
  "opts \<noteq> JNull \<Longrightarrow> send_arg_exn E p \<noteq> Inl TypeError \<Longrightarrow>
   send_exn E ob me p opts s = Inr (send E ob me p (queue_flag opts) s)"
  by (auto simp: send_exn_def send_def queue_option_def queue_flag_def Let_def doSend_exn_doSend
           split: option.splits)

lemma send_exn_queues:
  "opts \<noteq> JNull \<Longrightarrow> unityInstance s = None \<Longrightarrow>
   send_exn E ob me p opts s = Inr (send E ob me p (queue_flag opts) s)"
  by (auto simp: send_exn_def send_def queue_option_def queue_flag_def Let_def
           split: option.splits)

lemma send_exn_throws:
  "send_exn E ob me p JNull s = Inl TypeError"
  "opts \<noteq> JNull \<Longrightarrow> unityInstance s = Some i \<Longrightarrow> has_SendMessage i \<Longrightarrow>
   send_arg_exn E p = Inl TypeError \<Longrightarrow> send_exn E ob me p opts s = Inl TypeError"
  by (simp_all add: send_exn_def queue_option_def Let_def doSend_exn_throws)

lemma flush_exn_flush:
  "\<forall>m \<in> set items. send_arg_exn E (payload m) \<noteq> Inl TypeError \<Longrightarrow>
   flush_exn E items s = flush E items s"
  by (induction items arbitrary: s) (simp_all add: doSend_exn_doSend)

lemma setInstance_exn_setInstance:
  assumes "\<forall>m \<in> set (queuedSends s). send_arg_exn E (payload m) \<noteq> Inl TypeError"
  shows "setInstance_exn E inst s = setInstance E inst s"
proof -
  let ?s1 = "s\<lparr>unityInstance := inst\<rparr>"
  have eq: "flush_exn E (queuedSends ?s1) ?s1 = flush E (queuedSends ?s1) ?s1"
    using assms by (intro flush_exn_flush) simp
  show ?thesis
    unfolding setInstance_exn_def setInstance_def Let_def eq by (rule refl)
qed

lemma example_opaque:
  "send_arg_exn example_env (JOpaque 0) = Inl TypeError"
  "send_arg_exn example_env (JOpaque (Suc 0)) = Inr (JStr ''[object Object]'')"
  by (simp_all add: send_arg_exn_def example_env_def)

text \<open>
  C6. \<^verbatim>\<open>send\<close> throws to its caller on a payload that neither \<^verbatim>\<open>JSON.stringify\<close>
  nor \<^verbatim>\<open>String\<close> can print. The bridge holds a handle; the payload is object 0 of the
  examples (\<^verbatim>\<open>const o = Object.create(null); o.self = o\<close>). \<^verbatim>\<open>JSON.stringify\<close>
  throws on it and is caught, \<^verbatim>\<open>String\<close> throws in the \<^verbatim>\<open>catch\<close> block, and the
  error leaves \<^verbatim>\<open>doSend\<close> and \<^verbatim>\<open>send\<close>, of the bridge and of \<^verbatim>\<open>unityApi.js\<close>
  alike, where a boolean was to be returned. A fourth argument \<^verbatim>\<open>null\<close> makes
  \<^verbatim>\<open>send\<close> throw as well. For comparison: on the object that has a \<^verbatim>\<open>toString\<close>
  the call is made and \<open>True\<close> returned; without a handle object 0 is queued and
  \<open>True\<close> returned; and \<^verbatim>\<open>setInstance\<close>, which calls \<^verbatim>\<open>doSend\<close> under a
  \<^verbatim>\<open>try\<close> of its own, drops that message and empties the queue.
\<close>

theorem send_throws_on_unprintable_payload:
  "send_exn example_env ''JSEventManager'' ''OnStartRound'' (JOpaque 0) JUndefined ready_sys =
     Inl TypeError
   \<and> api_send_exn example_env (JOpaque 0) ''JSEventManager'' ''OnStartRound'' JUndefined
       ready_sys = Inl TypeError
   \<and> send_exn example_env ''JSEventManager'' ''OnStartRound'' (JStr ''hello'') JNull ready_sys =
       Inl TypeError
   \<and> send_exn example_env ''JSEventManager'' ''OnStartRound'' (JOpaque 1) JUndefined ready_sys =
       Inr (True, ready_sys\<lparr>host := 1, trace :=
         [Sent 7 ''JSEventManager'' ''OnStartRound'' (JStr ''[object Object]'')]\<rparr>)
   \<and> send_exn example_env ''JSEventManager'' ''OnStartRound'' (JOpaque 0) JUndefined
       (init_sys 0) = Inr (True, queued_opaque)
   \<and> setInstance_exn example_env (Some example_handle) queued_opaque = ready_sys"
proof -
  have h: "unityInstance ready_sys = Some example_handle" "has_SendMessage example_handle"
    by (simp_all add: ready_sys_def example_handle_def)
  have a: "send_exn example_env ''JSEventManager'' ''OnStartRound'' (JOpaque 0) JUndefined
      ready_sys = Inl TypeError"
    using h by (simp add: send_exn_throws(2) example_opaque)
  have b: "api_send_exn example_env (JOpaque 0) ''JSEventManager'' ''OnStartRound'' JUndefined
      ready_sys = Inl TypeError"
    using h by (simp add: api_send_exn_def send_exn_throws(2) example_opaque)
  have c: "send_exn example_env ''JSEventManager'' ''OnStartRound'' (JStr ''hello'') JNull
      ready_sys = Inl TypeError"
    by (rule send_exn_throws(1))
  have d: "send_exn example_env ''JSEventManager'' ''OnStartRound'' (JOpaque 1) JUndefined
      ready_sys = Inr (True, ready_sys\<lparr>host := 1, trace :=
         [Sent 7 ''JSEventManager'' ''OnStartRound'' (JStr ''[object Object]'')]\<rparr>)"
    by (simp add: send_exn_def queue_option_def doSend_exn_def example_opaque ready_sys_def
          example_handle_def init_sys_def emit_def)
       (simp add: example_env_def)
  have e: "send_exn example_env ''JSEventManager'' ''OnStartRound'' (JOpaque 0) JUndefined
       (init_sys 0) = Inr (True, queued_opaque)"
    by (simp add: send_exn_def queue_option_def queued_opaque_def start_round_def init_sys_def)
  have f: "setInstance_exn example_env (Some example_handle) queued_opaque = ready_sys"
    by (simp add: setInstance_exn_def queued_opaque_def ready_sys_def doSend_exn_def
          example_opaque example_handle_def init_sys_def)
  show ?thesis
    using a b c d e f by blast
qed

section \<open>The bridge: readiness, proved\<close>

lemma ready_inv_init: "ready_inv (init_sys h)"
  by (simp add: ready_inv_def init_sys_def)

lemma resolve_promise_same:
  "p < length ps \<Longrightarrow> ps ! p = Pending \<Longrightarrow> resolve_promise p v ps ! p = Resolved v"
  by (simp add: resolve_promise_def)

lemma ready_inv_whenReady: "ready_inv s \<Longrightarrow> ready_inv (snd (whenReady s))"
  by (auto simp: ready_inv_def whenReady_def ensureReadyPromise_def Let_def nth_append
           split: option.splits)

lemma ready_inv_setInstance: "ready_inv s \<Longrightarrow> ready_inv (setInstance E x s)"
  by (auto simp: ready_inv_def setInstance_def Let_def flush_fields split: option.splits)

lemma ready_inv_clearInstance: "ready_inv (clearInstance s)"
  by (simp add: ready_inv_def clearInstance_def)

lemma ready_inv_send: "ready_inv s \<Longrightarrow> ready_inv (snd (send E ob me p q s))"
  by (auto simp: ready_inv_def send_def doSend_fields split: option.splits)

lemma whenReady_pending:
  assumes "ready_inv s" "unityInstance s = None" "whenReady s = (p, s1)"
  shows "p < length (promises s1)" "promises s1 ! p = Pending" "readyResolve s1 = Some p"
    "whenReady s1 = (p, s1)"
  using assms
  by (auto simp: ready_inv_def whenReady_def ensureReadyPromise_def Let_def nth_append
           split: option.splits)

lemma setInstance_resolves:
  assumes "readyResolve s = Some p" "p < length (promises s)" "promises s ! p = Pending"
  shows "promises (setInstance E x s) ! p = Resolved x"
    "length (promises (setInstance E x s)) = length (promises s)"
  using assms
  by (auto simp: setInstance_def Let_def flush_fields resolve_promise_same resolve_promise_def
           split: option.splits)

lemma whenReady_with_handle:
  assumes "unityInstance s = Some i" "whenReady s = (p, s1)"
  shows "p = length (promises s)" "promises s1 = promises s @ [Resolved (Some i)]"
  using assms by (auto simp: whenReady_def)

lemma whenReady_after_clear:
  "whenReady (clearInstance s) =
     (length (promises s),
      (clearInstance s)\<lparr>promises := promises s @ [Pending],
        readyPromise := Some (length (promises s)),
        readyResolve := Some (length (promises s))\<rparr>)"
  by (simp add: whenReady_def ensureReadyPromise_def clearInstance_def Let_def)

text \<open>
  C7. While there is no handle, \<^verbatim>\<open>whenReady\<close> returns one and the same pending
  promise to every caller. \<^verbatim>\<open>setInstance\<close> with a handle resolves that promise with
  the handle, and \<^verbatim>\<open>whenReady\<close> called afterwards returns a promise resolved with the
  same handle. After \<^verbatim>\<open>clearInstance\<close>, \<^verbatim>\<open>whenReady\<close> returns a promise that did
  not exist before, is pending, and is resolved by the next \<^verbatim>\<open>setInstance\<close> with
  the handle given there.
\<close>

theorem whenReady_same_handle:
  assumes inv: "ready_inv s" and none: "unityInstance s = None"
  shows "(case whenReady s of (p1, s1) \<Rightarrow>
            whenReady s1 = (p1, s1) \<and> p1 < length (promises s1) \<and>
            promises s1 ! p1 = Pending \<and>
            (case whenReady (setInstance E (Some i) s1) of (p2, s3) \<Rightarrow>
               promises s3 ! p1 = Resolved (Some i) \<and> promises s3 ! p2 = Resolved (Some i)))
     \<and> (case whenReady (clearInstance s') of (p3, s4) \<Rightarrow>
            p3 = length (promises s') \<and> length (promises s4) = Suc p3 \<and>
            promises s4 ! p3 = Pending \<and>
            promises (setInstance E (Some i') s4) ! p3 = Resolved (Some i'))"
proof -
  obtain p1 s1 where w1: "whenReady s = (p1, s1)"
    by (cases "whenReady s")
  note f = whenReady_pending [OF inv none w1]
  let ?s2 = "setInstance E (Some i) s1"
  obtain p2 s3 where w2: "whenReady ?s2 = (p2, s3)"
    by (cases "whenReady ?s2")
  have r: "promises ?s2 ! p1 = Resolved (Some i)" "length (promises ?s2) = length (promises s1)"
    using setInstance_resolves [OF f(3) f(1) f(2)] by simp_all
  have "unityInstance ?s2 = Some i"
    by (simp add: setInstance_instance)
  note g = whenReady_with_handle [OF this w2]
  have "promises s3 ! p1 = Resolved (Some i)"
    using g(2) r f(1) by (simp add: nth_append)
  moreover have "promises s3 ! p2 = Resolved (Some i)"
    using g by simp
  ultimately have first: "case whenReady s of (p1, s1) \<Rightarrow>
            whenReady s1 = (p1, s1) \<and> p1 < length (promises s1) \<and>
            promises s1 ! p1 = Pending \<and>
            (case whenReady (setInstance E (Some i) s1) of (p2, s3) \<Rightarrow>
               promises s3 ! p1 = Resolved (Some i) \<and> promises s3 ! p2 = Resolved (Some i))"
    using w1 w2 f by simp
  let ?p = "length (promises s')"
  let ?s4 = "(clearInstance s')\<lparr>promises := promises s' @ [Pending],
               readyPromise := Some ?p, readyResolve := Some ?p\<rparr>"
  have "promises (setInstance E (Some i') ?s4) ! ?p = Resolved (Some i')"
    by (rule setInstance_resolves(1)) simp_all
  then have second: "case whenReady (clearInstance s') of (p3, s4) \<Rightarrow>
            p3 = length (promises s') \<and> length (promises s4) = Suc p3 \<and>
            promises s4 ! p3 = Pending \<and>
            promises (setInstance E (Some i') s4) ! p3 = Resolved (Some i')"
    by (simp add: whenReady_after_clear)
  from first second show ?thesis ..
qed

theorem whenReady_same_handle_witness:
  "ready_inv (init_sys (0::nat)) \<and> unityInstance (init_sys (0::nat)) = None
   \<and> fst (whenReady (init_sys (0::nat))) = 0
   \<and> fst (whenReady (snd (whenReady (init_sys (0::nat))))) = 0
   \<and> promises (snd (whenReady (init_sys (0::nat)))) = [Pending]
   \<and> promises (snd (whenReady (setInstance example_env (Some example_handle)
         (snd (whenReady (init_sys 0)))))) =
       [Resolved (Some example_handle), Resolved (Some example_handle)]
   \<and> fst (whenReady (clearInstance (setInstance example_env (Some example_handle)
         (snd (whenReady (init_sys 0)))))) = 1
   \<and> promises (snd (whenReady (clearInstance (setInstance example_env (Some example_handle)
         (snd (whenReady (init_sys 0))))))) = [Resolved (Some example_handle), Pending]"
proof -
  have h: "ready_inv (init_sys (0::nat))" "unityInstance (init_sys (0::nat)) = None"
    by (simp_all add: ready_inv_def init_sys_def)
  show ?thesis
    using h whenReady_same_handle [OF h, where E = example_env and i = example_handle
        and i' = example_handle
        and s' = "setInstance example_env (Some example_handle) (snd (whenReady (init_sys 0)))"]
    by (simp add: whenReady_def ensureReadyPromise_def clearInstance_def init_sys_def
          setInstance_def resolve_promise_def)
qed

section \<open>The bridge: inbound dispatch, proved\<close>

lemma calls_append [simp]: "calls (xs @ ys) = calls xs @ calls ys"
  by (simp add: calls_def)

lemma calls_simps [simp]:
  "calls [] = []"
  "calls (Called c args ok # tr) = (c, args, ok) # calls tr"
  "calls (Sent i ob me a # tr) = calls tr"
  "calls (Parsed x # tr) = calls tr"
  "calls (ConsoleError # tr) = calls tr"
  by (simp_all add: calls_def)

lemma parses_append [simp]: "parses (xs @ ys) = parses xs @ parses ys"
  by (simp add: parses_def)

lemma parses_simps [simp]:
  "parses [] = []"
  "parses (Called c args ok # tr) = parses tr"
  "parses (Sent i ob me a # tr) = parses tr"
  "parses (Parsed x # tr) = x # parses tr"
  "parses (ConsoleError # tr) = parses tr"
  by (simp_all add: parses_def)

lemma errors_append [simp]: "errors (xs @ ys) = errors xs + errors ys"
  by (simp add: errors_def)

lemma errors_simps [simp]:
  "errors [] = 0"
  "errors (Called c args ok # tr) = errors tr"
  "errors (Sent i ob me a # tr) = errors tr"
  "errors (Parsed x # tr) = errors tr"
  "errors (ConsoleError # tr) = Suc (errors tr)"
  by (simp_all add: errors_def)

lemma faults_append [simp]: "faults (xs @ ys) = faults xs + faults ys"
  by (simp add: faults_def)

lemma faults_simps [simp]:
  "faults [] = 0"
  "faults (Called c args ok # tr) = (if ok then faults tr else Suc (faults tr))"
  "faults (Sent i ob me a # tr) = faults tr"
  "faults (Parsed x # tr) = faults tr"
  "faults (ConsoleError # tr) = faults tr"
  by (simp_all add: faults_def)

lemma site_simp [simp]: "site (c, args, ok) = (c, args)"
  by (simp add: site_def)

text \<open>The loop over the per-type handlers touches the host and the trace only.\<close>

lemma handler_loop_frame:
  "handler_loop E fs p s =
     s\<lparr>host := host (handler_loop E fs p s), trace := trace (handler_loop E fs p s)\<rparr>"
proof (induction fs arbitrary: s)
  case Nil
  show ?case by simp
next
  case (Cons f fs)
  obtain ok h' where i: "invoke E f [p] (host s) = (ok, h')"
    by (cases "invoke E f [p] (host s)")
  let ?s1 = "emit (Called (Handler f) [p] ok) (s\<lparr>host := h'\<rparr>)"
  let ?s2 = "if ok then ?s1 else emit ConsoleError ?s1"
  have l: "handler_loop E (f # fs) p s = handler_loop E fs p ?s2"
    using i by simp
  have "handler_loop E fs p ?s2 =
      ?s2\<lparr>host := host (handler_loop E fs p ?s2), trace := trace (handler_loop E fs p ?s2)\<rparr>"
    by (rule Cons.IH)
  also have "\<dots> = s\<lparr>host := host (handler_loop E fs p ?s2), trace := trace (handler_loop E fs p ?s2)\<rparr>"
    by (simp add: emit_def)
  finally show ?case
    using l by simp
qed

lemma handler_loop_sites:
  "map site (calls (trace (handler_loop E fs p s))) =
     map site (calls (trace s)) @ map (\<lambda>f. (Handler f, [p])) fs"
  by (induction fs arbitrary: s) (auto simp: emit_def Let_def split: prod.splits)

lemma handler_loop_errors:
  "errors (trace (handler_loop E fs p s)) + faults (trace s) =
     errors (trace s) + faults (trace (handler_loop E fs p s))"
proof (induction fs arbitrary: s)
  case Nil
  show ?case by simp
next
  case (Cons f fs)
  obtain ok h' where i: "invoke E f [p] (host s) = (ok, h')"
    by (cases "invoke E f [p] (host s)")
  let ?s1 = "emit (Called (Handler f) [p] ok) (s\<lparr>host := h'\<rparr>)"
  let ?s2 = "if ok then ?s1 else emit ConsoleError ?s1"
  have l: "handler_loop E (f # fs) p s = handler_loop E fs p ?s2"
    using i by simp
  show ?case
    using Cons.IH [of ?s2] unfolding l by (cases ok) (simp_all add: emit_def)
qed

lemma handler_loop_parses:
  "parses (trace (handler_loop E fs p s)) = parses (trace s)"
  by (induction fs arbitrary: s) (auto simp: emit_def Let_def split: prod.splits)


lemma handler_loop_registries:
  "handlers (handler_loop E fs p s) = handlers s"
  "globalHandlers (handler_loop E fs p s) = globalHandlers s"
  "subscribers (handler_loop E fs p s) = subscribers s"
  "installed (handler_loop E fs p s) = installed s"
  by (subst handler_loop_frame, simp)+

text \<open>The bus never writes the trace, the host or the per-type handlers of the bridge.\<close>

lemma unsubscribe_frame [simp]:
  "trace (unsubscribe ty fn s) = trace s"
  "host (unsubscribe ty fn s) = host s"
  "handlers (unsubscribe ty fn s) = handlers s"
  by (simp_all add: unsubscribe_def maybeUninstall_def unregisterGlobalHandler_def Let_def
        split: option.splits)

lemma call_sub_sites:
  "map site (calls (trace (snd (call_sub E f args s)))) =
     map site (calls (trace s)) @ [(Subscriber f, args)]"
  by (cases f) (simp_all add: emit_def Let_def split: prod.splits)

lemma call_sub_errors:
  "errors (trace (snd (call_sub E f args s))) = errors (trace s)"
  "faults (trace (snd (call_sub E f args s))) =
     faults (trace s) + (if fst (call_sub E f args s) then 0 else 1)"
  "parses (trace (snd (call_sub E f args s))) = parses (trace s)"
  "handlers (snd (call_sub E f args s)) = handlers s"
  by (cases f; simp add: emit_def Let_def split: prod.splits)+

lemma forward_loop_Cons:
  "forward_loop E (f # fs) args s =
     forward_loop E fs args
       (if fst (call_sub E f args s) then snd (call_sub E f args s)
        else emit ConsoleError (snd (call_sub E f args s)))"
  by (simp add: split_def)

lemma forward_loop_sites:
  "map site (calls (trace (forward_loop E fs args s))) =
     map site (calls (trace s)) @ map (\<lambda>sb. (Subscriber sb, args)) fs"
proof (induction fs arbitrary: s)
  case Nil
  show ?case by simp
next
  case (Cons f fs)
  show ?case
    unfolding forward_loop_Cons
    by (simp add: Cons.IH call_sub_sites emit_def)
qed

lemma forward_loop_errors:
  "errors (trace (forward_loop E fs args s)) + faults (trace s) =
     errors (trace s) + faults (trace (forward_loop E fs args s))"
proof (induction fs arbitrary: s)
  case Nil
  show ?case by simp
next
  case (Cons f fs)
  let ?r = "call_sub E f args s"
  let ?s2 = "if fst ?r then snd ?r else emit ConsoleError (snd ?r)"
  show ?case
    using Cons.IH [of ?s2] unfolding forward_loop_Cons
    by (simp add: call_sub_errors emit_def split: if_splits)
qed

lemma forward_loop_parses:
  "parses (trace (forward_loop E fs args s)) = parses (trace s)"
  "handlers (forward_loop E fs args s) = handlers s"
proof (induction fs arbitrary: s)
  case Nil
  { case 1 show ?case by simp }
  { case 2 show ?case by simp }
next
  case (Cons f fs)
  { case 1 show ?case unfolding forward_loop_Cons
      by (simp add: Cons.IH call_sub_errors emit_def) }
  { case 2 show ?case unfolding forward_loop_Cons
      by (simp add: Cons.IH call_sub_errors emit_def) }
qed

lemma globalForwarder_sites:
  "map site (calls (trace (globalForwarder E ty p meta s))) =
     map site (calls (trace s)) @ map (\<lambda>sb. (Subscriber sb, [p, meta])) (subs_of s ty)"
  by (simp add: globalForwarder_def subs_of_def forward_loop_sites split: option.splits)

lemma globalForwarder_errors:
  "errors (trace (globalForwarder E ty p meta s)) + faults (trace s) =
     errors (trace s) + faults (trace (globalForwarder E ty p meta s))"
  "parses (trace (globalForwarder E ty p meta s)) = parses (trace s)"
  "handlers (globalForwarder E ty p meta s) = handlers s"
  by (simp_all add: globalForwarder_def forward_loop_errors forward_loop_parses
        split: option.splits)

lemma global_loop_Cons:
  "global_loop E (g # gs) ty p meta s =
     global_loop E gs ty p meta
       (if fst (call_global E g ty p meta s) then snd (call_global E g ty p meta s)
        else emit ConsoleError (snd (call_global E g ty p meta s)))"
  by (simp add: split_def)

lemma call_global_host:
  "subscribers (snd (call_global E (GHost n) ty p meta s)) = subscribers s"
  by (simp add: emit_def split: prod.splits)

lemma call_global_sites:
  "map site (calls (trace (snd (call_global E g ty p meta s)))) =
     map site (calls (trace s)) @ observer_sites (subs_of s ty) ty p meta g"
  by (cases g)
     (simp_all add: emit_def observer_sites_def globalForwarder_sites subs_of_def
        split: prod.splits)

lemma call_global_errors:
  "errors (trace (snd (call_global E g ty p meta s))) +
     (if fst (call_global E g ty p meta s) then 0 else 1) + faults (trace s) =
   errors (trace s) + faults (trace (snd (call_global E g ty p meta s)))"
  "parses (trace (snd (call_global E g ty p meta s))) = parses (trace s)"
proof -
  show "errors (trace (snd (call_global E g ty p meta s))) +
     (if fst (call_global E g ty p meta s) then 0 else 1) + faults (trace s) =
   errors (trace s) + faults (trace (snd (call_global E g ty p meta s)))"
  proof (cases g)
    case (GHost n)
    then show ?thesis by (simp add: emit_def split: prod.splits)
  next
    case GForwarder
    show ?thesis
      using globalForwarder_errors(1)
        [of E ty p meta "emit (Called (Observer GForwarder) [ty, p, meta] True) s"]
      by (simp add: GForwarder emit_def)
  qed
  show "parses (trace (snd (call_global E g ty p meta s))) = parses (trace s)"
    by (cases g) (simp_all add: emit_def globalForwarder_errors split: prod.splits)
qed

lemma observer_sites_host:
  "g \<noteq> GForwarder \<Longrightarrow> observer_sites X ty p meta g = observer_sites Y ty p meta g"
  by (cases g) (simp_all add: observer_sites_def)

lemma global_loop_sites:
  "distinct gs \<Longrightarrow>
   map site (calls (trace (global_loop E gs ty p meta s))) =
     map site (calls (trace s)) @ concat (map (observer_sites (subs_of s ty) ty p meta) gs)"
proof (induction gs arbitrary: s)
  case Nil
  show ?case by simp
next
  case (Cons g gs)
  let ?r = "call_global E g ty p meta s"
  let ?s2 = "if fst ?r then snd ?r else emit ConsoleError (snd ?r)"
  have d: "distinct gs" "g \<notin> set gs"
    using Cons.prems by simp_all
  have tr: "map site (calls (trace ?s2)) =
      map site (calls (trace s)) @ observer_sites (subs_of s ty) ty p meta g"
    by (simp add: call_global_sites emit_def)
  have rest: "map (observer_sites (subs_of ?s2 ty) ty p meta) gs =
      map (observer_sites (subs_of s ty) ty p meta) gs"
  proof (cases g)
    case (GHost n)
    have "subscribers ?s2 = subscribers s"
      using call_global_host [of E n ty p meta s] by (simp add: GHost emit_def)
    then show ?thesis by (simp add: subs_of_def)
  next
    case GForwarder
    then have "\<forall>x \<in> set gs. x \<noteq> GForwarder"
      using d(2) by auto
    then show ?thesis
      by (auto intro: observer_sites_host)
  qed
  show ?case
    unfolding global_loop_Cons
    by (simp add: Cons.IH [OF d(1)] tr rest)
qed

lemma global_loop_errors:
  "errors (trace (global_loop E gs ty p meta s)) + faults (trace s) =
     errors (trace s) + faults (trace (global_loop E gs ty p meta s))"
proof (induction gs arbitrary: s)
  case Nil
  show ?case by simp
next
  case (Cons g gs)
  let ?r = "call_global E g ty p meta s"
  let ?s2 = "if fst ?r then snd ?r else emit ConsoleError (snd ?r)"
  show ?case
    using Cons.IH [of ?s2] call_global_errors(1) [of E g ty p meta s]
    unfolding global_loop_Cons
    by (simp add: emit_def split: if_splits)
qed

lemma global_loop_parses:
  "parses (trace (global_loop E gs ty p meta s)) = parses (trace s)"
proof (induction gs arbitrary: s)
  case Nil
  show ?case by simp
next
  case (Cons g gs)
  show ?case
    unfolding global_loop_Cons
    by (simp add: Cons.IH call_global_errors emit_def)
qed

lemma parsed_segment [simp]:
  "calls (case p of JStr str \<Rightarrow> [Parsed str] | _ \<Rightarrow> []) = []"
  "errors (case p of JStr str \<Rightarrow> [Parsed str] | _ \<Rightarrow> []) = 0"
  "faults (case p of JStr str \<Rightarrow> [Parsed str] | _ \<Rightarrow> []) = 0"
  "parses (case p of JStr str \<Rightarrow> [Parsed str] | _ \<Rightarrow> []) =
     (case p of JStr str \<Rightarrow> [str] | _ \<Rightarrow> [])"
  by (cases p; simp)+

lemma normalize_eq:
  "normalize E p s =
     (spec_normalized E p,
      s\<lparr>trace := trace s @ (case p of JStr str \<Rightarrow> [Parsed str] | _ \<Rightarrow> [])\<rparr>)"
  by (cases p) (simp_all add: normalize_def spec_normalized_def emit_def split: option.splits)

text \<open>The whole dispatch of an event that passes the guards of the listener.\<close>

lemma accepted_object: "accepted e \<Longrightarrow> typeof_object e"
  by (cases e) (simp_all add: accepted_def event_detail_def)

lemma listener_accepted:
  assumes "accepted e"
  shows "windowUnityMessageListener E e s =
    Inr (emitToGlobalHandlers E (event_type e) (spec_normalized E (event_payload e))
           (event_meta e)
           (emitToHandlers E (event_type e) (spec_normalized E (event_payload e))
              (s\<lparr>trace := trace s @
                 (case event_payload e of JStr str \<Rightarrow> [Parsed str] | _ \<Rightarrow> [])\<rparr>)))"
  using assms accepted_object [OF assms]
  by (simp add: windowUnityMessageListener_def accepted_def event_detail_def event_type_def
        event_payload_def event_meta_def normalize_eq Let_def)

lemma listener_dispatch:
  assumes "accepted e" and "distinct (globalHandlers s)"
  shows "\<exists>s'. windowUnityMessageListener E e s = Inr s' \<and>
     map site (calls (trace s')) =
       map site (calls (trace s)) @
       dispatch_sites s (event_type e) (spec_normalized E (event_payload e)) (event_meta e) \<and>
     parses (trace s') =
       parses (trace s) @ (case event_payload e of JStr str \<Rightarrow> [str] | _ \<Rightarrow> []) \<and>
     errors (trace s') + faults (trace s) = errors (trace s) + faults (trace s')"
proof -
  let ?ty = "event_type e" and ?n = "spec_normalized E (event_payload e)"
  let ?s1 = "s\<lparr>trace := trace s @
                 (case event_payload e of JStr str \<Rightarrow> [Parsed str] | _ \<Rightarrow> [])\<rparr>"
  let ?s2 = "emitToHandlers E ?ty ?n ?s1"
  let ?s3 = "emitToGlobalHandlers E ?ty ?n (event_meta e) ?s2"
  have s2: "?s2 = handler_loop E (handlers_of s ?ty) ?n ?s1"
    by (simp add: emitToHandlers_def handlers_of_def split: option.splits)
  have reg: "globalHandlers ?s2 = globalHandlers s" "subs_of ?s2 ?ty = subs_of s ?ty"
    unfolding s2 by (simp_all add: handler_loop_registries subs_of_def)
  have c1: "calls (trace ?s1) = calls (trace s)" "faults (trace ?s1) = faults (trace s)"
    "errors (trace ?s1) = errors (trace s)"
    by simp_all
  have p1: "parses (trace ?s1) =
      parses (trace s) @ (case event_payload e of JStr str \<Rightarrow> [str] | _ \<Rightarrow> [])"
    by simp
  have sites2: "map site (calls (trace ?s2)) =
      map site (calls (trace s)) @ map (\<lambda>f. (Handler f, [?n])) (handlers_of s ?ty)"
    unfolding s2 by (simp add: handler_loop_sites c1)
  have sites3: "map site (calls (trace ?s3)) =
      map site (calls (trace s)) @ dispatch_sites s ?ty ?n (event_meta e)"
    using assms(2)
    by (simp add: emitToGlobalHandlers_def global_loop_sites reg sites2 dispatch_sites_def)
  have e2: "errors (trace ?s2) + faults (trace s) = errors (trace s) + faults (trace ?s2)"
    using handler_loop_errors [of E "handlers_of s ?ty" ?n ?s1] unfolding s2 c1 .
  have e3: "errors (trace ?s3) + faults (trace ?s2) = errors (trace ?s2) + faults (trace ?s3)"
    by (simp add: emitToGlobalHandlers_def global_loop_errors)
  have p3: "parses (trace ?s3) =
      parses (trace s) @ (case event_payload e of JStr str \<Rightarrow> [str] | _ \<Rightarrow> [])"
    unfolding emitToGlobalHandlers_def global_loop_parses s2 handler_loop_parses p1 ..
  have "errors (trace ?s3) + faults (trace s) = errors (trace s) + faults (trace ?s3)"
    using e2 e3 by arith
  then show ?thesis
    using listener_accepted [OF assms(1), of E s] sites3 p3 by blast
qed

lemma example_sys_eq:
  "example_sys = (init_sys 0)\<lparr>handlers := [(JStr ''GameResult'', [100, 1])],
     globalHandlers := [GHost 2, GForwarder],
     subscribers := [(JStr ''GameResult'', [SHost 3])], installed := True\<rparr>"
  by (simp add: example_sys_def subscribe_def install_def registerGlobalHandler_def
        registerHandler_def ensureSet_def init_sys_def map_set_def set_add_def Let_def)

lemma accepted_message:
  "accepted (message ty p) \<longleftrightarrow> ty \<noteq> JUndefined \<and> ty \<noteq> JNull"
  "event_type (message ty p) = ty"
  "event_payload (message ty p) = p"
  "event_meta (message ty p) = JUndefined"
  by (simp_all add: accepted_def message_def custom_event_def event_detail_def event_type_def
        event_payload_def event_meta_def)

lemma accepted_custom_event:
  "accepted (custom_event d) \<longleftrightarrow>
     truthy d \<and> typeof_object d \<and> get_prop d ''type'' \<noteq> JUndefined \<and> get_prop d ''type'' \<noteq> JNull"
  by (simp add: accepted_def custom_event_def event_detail_def event_type_def)

lemma payload_arg_sites:
  "list_all (\<lambda>c. payload_arg c = n) (dispatch_sites s ty n meta)"
  by (auto simp: dispatch_sites_def observer_sites_def list_all_iff split: gfn.splits)

lemma spec_normalized_cases:
  "JSON_parse E str = Some v \<Longrightarrow> spec_normalized E (JStr str) = v"
  "JSON_parse E str = None \<Longrightarrow> spec_normalized E (JStr str) = JStr str"
  "\<not> is_string p \<Longrightarrow> spec_normalized E p = p"
  by (cases p; simp add: spec_normalized_def)+

text \<open>
  C4. An event that passes the guards of the listener is normalized once: a string
  payload is given to \<^verbatim>\<open>JSON.parse\<close> exactly once and replaced by the result, or kept
  as it is when \<^verbatim>\<open>JSON.parse\<close> throws; any other payload is not parsed and passes
  unchanged. Every per-type handler, every global observer and every subscriber behind
  the forwarder is then called with that one normalized payload.
\<close>

theorem normalized_payload_shared:
  assumes "accepted e" and "distinct (globalHandlers s)"
  shows "(\<exists>s'. windowUnityMessageListener E e s = Inr s' \<and>
       map site (calls (trace s')) =
         map site (calls (trace s)) @
         dispatch_sites s (event_type e) (spec_normalized E (event_payload e)) (event_meta e) \<and>
       parses (trace s') =
         parses (trace s) @ (case event_payload e of JStr str \<Rightarrow> [str] | _ \<Rightarrow> []))
     \<and> list_all (\<lambda>c. payload_arg c = spec_normalized E (event_payload e))
          (dispatch_sites s (event_type e) (spec_normalized E (event_payload e)) (event_meta e))
     \<and> (JSON_parse E str = Some v \<longrightarrow> spec_normalized E (JStr str) = v)
     \<and> (JSON_parse E str = None \<longrightarrow> spec_normalized E (JStr str) = JStr str)
     \<and> (\<not> is_string p \<longrightarrow> spec_normalized E p = p)"
proof -
  have "\<exists>s'. windowUnityMessageListener E e s = Inr s' \<and>
       map site (calls (trace s')) =
         map site (calls (trace s)) @
         dispatch_sites s (event_type e) (spec_normalized E (event_payload e)) (event_meta e) \<and>
       parses (trace s') =
         parses (trace s) @ (case event_payload e of JStr str \<Rightarrow> [str] | _ \<Rightarrow> [])"
    using listener_dispatch [OF assms, of E] by blast
  then show ?thesis
    by (simp add: payload_arg_sites spec_normalized_cases)
qed

lemma example_sys_hyps:
  "accepted (message (JStr ''GameResult'') p)" "distinct (globalHandlers example_sys)"
  by (simp_all add: accepted_message example_sys_eq)

lemma example_dispatch_json:
  "windowUnityMessageListener example_env (message (JStr ''GameResult'') (JStr ''{\"a\":1}''))
     example_sys =
   Inr (example_sys\<lparr>host := 4, trace :=
     [Parsed ''{\"a\":1}'',
      Called (Handler 100) [JObj [(''a'', JNum 1)]] False,
      ConsoleError,
      Called (Handler 1) [JObj [(''a'', JNum 1)]] True,
      Called (Observer (GHost 2)) [JStr ''GameResult'', JObj [(''a'', JNum 1)], JUndefined] True,
      Called (Observer GForwarder) [JStr ''GameResult'', JObj [(''a'', JNum 1)], JUndefined] True,
      Called (Subscriber (SHost 3)) [JObj [(''a'', JNum 1)], JUndefined] True]\<rparr>)"
  by (simp add: listener_accepted example_sys_hyps accepted_message example_sys_eq
        spec_normalized_def example_env_def emitToHandlers_def emitToGlobalHandlers_def
        globalForwarder_def emit_def init_sys_def)

lemma example_dispatch_text:
  "windowUnityMessageListener example_env (message (JStr ''GameResult'') (JStr ''not-json''))
     example_sys =
   Inr (example_sys\<lparr>host := 4, trace :=
     [Parsed ''not-json'',
      Called (Handler 100) [JStr ''not-json''] False,
      ConsoleError,
      Called (Handler 1) [JStr ''not-json''] True,
      Called (Observer (GHost 2)) [JStr ''GameResult'', JStr ''not-json'', JUndefined] True,
      Called (Observer GForwarder) [JStr ''GameResult'', JStr ''not-json'', JUndefined] True,
      Called (Subscriber (SHost 3)) [JStr ''not-json'', JUndefined] True]\<rparr>)"
  by (simp add: listener_accepted example_sys_hyps accepted_message example_sys_eq
        spec_normalized_def example_env_def emitToHandlers_def emitToGlobalHandlers_def
        globalForwarder_def emit_def init_sys_def)

theorem normalized_payload_shared_witness:
  "accepted (message (JStr ''GameResult'') (JStr ''{\"a\":1}''))
   \<and> distinct (globalHandlers example_sys)
   \<and> JSON_parse example_env ''{\"a\":1}'' = Some (JObj [(''a'', JNum 1)])
   \<and> JSON_parse example_env ''not-json'' = None
   \<and> spec_normalized example_env (JStr ''{\"a\":1}'') = JObj [(''a'', JNum 1)]
   \<and> spec_normalized example_env (JStr ''not-json'') = JStr ''not-json''
   \<and> spec_normalized example_env (JNum 5) = JNum 5
   \<and> (\<exists>s'. windowUnityMessageListener example_env
          (message (JStr ''GameResult'') (JStr ''{\"a\":1}'')) example_sys = Inr s' \<and>
        map site (calls (trace s')) =
          [(Handler 100, [JObj [(''a'', JNum 1)]]),
           (Handler 1, [JObj [(''a'', JNum 1)]]),
           (Observer (GHost 2), [JStr ''GameResult'', JObj [(''a'', JNum 1)], JUndefined]),
           (Observer GForwarder, [JStr ''GameResult'', JObj [(''a'', JNum 1)], JUndefined]),
           (Subscriber (SHost 3), [JObj [(''a'', JNum 1)], JUndefined])] \<and>
        parses (trace s') = [''{\"a\":1}''])"
proof -
  have p: "JSON_parse example_env ''{\"a\":1}'' = Some (JObj [(''a'', JNum 1)])"
    "JSON_parse example_env ''not-json'' = None"
    by (simp_all add: example_env_def)
  note t = normalized_payload_shared
    [OF example_sys_hyps(1) [where p = "JStr ''{\"a\":1}''"] example_sys_hyps(2),
     where E = example_env]
  have n: "spec_normalized example_env (JStr ''{\"a\":1}'') = JObj [(''a'', JNum 1)]"
    "spec_normalized example_env (JStr ''not-json'') = JStr ''not-json''"
    "spec_normalized example_env (JNum 5) = JNum 5"
    using p t [where p = "JStr ''{\"a\":1}''" and str = "''{\"a\":1}''"
               and v = "JObj [(''a'', JNum 1)]"]
      t [where p = "JNum 5" and str = "''not-json''"]
    by simp_all
  have d: "\<exists>s'. windowUnityMessageListener example_env
          (message (JStr ''GameResult'') (JStr ''{\"a\":1}'')) example_sys = Inr s' \<and>
        map site (calls (trace s')) =
          [(Handler 100, [JObj [(''a'', JNum 1)]]),
           (Handler 1, [JObj [(''a'', JNum 1)]]),
           (Observer (GHost 2), [JStr ''GameResult'', JObj [(''a'', JNum 1)], JUndefined]),
           (Observer GForwarder, [JStr ''GameResult'', JObj [(''a'', JNum 1)], JUndefined]),
           (Subscriber (SHost 3), [JObj [(''a'', JNum 1)], JUndefined])] \<and>
        parses (trace s') = [''{\"a\":1}'']"
    using conjunct1 [OF t] n
    by (simp add: accepted_message dispatch_sites_def observer_sites_def handlers_of_def
          subs_of_def example_sys_eq init_sys_def)
  show ?thesis
    using example_sys_hyps p n d by blast
qed

text \<open>The per-type handlers of the bridge form a set, like its global observers.\<close>

lemma handlers_of_registerHandler:
  "handlers_of (registerHandler ev fn s) ty =
     (if ty = ev then set_add fn (handlers_of s ev) else handlers_of s ty)"
  by (auto simp: registerHandler_def handlers_of_def map_of_map_set Let_def
        split: option.splits)

lemma handlers_of_unregisterHandler:
  "handlers_of (unregisterHandler ev fn s) ty =
     (if ty = ev then set_delete fn (handlers_of s ev) else handlers_of s ty)"
proof (cases "map_of (handlers s) ev")
  case None
  then show ?thesis
    by (simp add: unregisterHandler_def handlers_of_def set_delete_def)
next
  case (Some fs)
  show ?thesis
  proof (cases "set_delete fn fs = []")
    case True
    then show ?thesis
      using Some
      by (simp add: unregisterHandler_def handlers_of_def map_of_map_set map_of_map_delete
            Let_def)
  next
    case False
    then show ?thesis
      using Some by (simp add: unregisterHandler_def handlers_of_def map_of_map_set Let_def)
  qed
qed

lemma handlers_distinct:
  "distinct (handlers_of (init_sys h) ty)"
  "distinct (handlers_of s ev) \<Longrightarrow> distinct (handlers_of s ty) \<Longrightarrow>
     distinct (handlers_of (registerHandler ev fn s) ty)"
  "distinct (handlers_of s ev) \<Longrightarrow> distinct (handlers_of s ty) \<Longrightarrow>
     distinct (handlers_of (unregisterHandler ev fn s) ty)"
  by (simp_all add: handlers_of_registerHandler handlers_of_unregisterHandler distinct_set_add
        distinct_set_delete)
     (simp add: handlers_of_def init_sys_def)

lemma observers_distinct:
  "distinct (globalHandlers (init_sys h))"
  "distinct (globalHandlers s) \<Longrightarrow> distinct (globalHandlers (registerGlobalHandler g s))"
  "distinct (globalHandlers s) \<Longrightarrow> distinct (globalHandlers (unregisterGlobalHandler g s))"
  by (simp_all add: init_sys_def registerGlobalHandler_def unregisterGlobalHandler_def
        distinct_set_add distinct_set_delete)

lemma count_handler_sites:
  "count_list (map fst (dispatch_sites s ty n meta)) (Handler f) = count_list (handlers_of s ty) f"
proof -
  have a: "count_list (map (fst \<circ> (\<lambda>f. (Handler f, [n]))) fs) (Handler f) = count_list fs f"
    for fs
    by (induction fs) simp_all
  have b: "count_list (map (fst \<circ> (\<lambda>sb. (Subscriber sb, [n, meta]))) xs) (Handler f) = 0" for xs
    by (induction xs) simp_all
  have "count_list (map fst (observer_sites subs ty n meta g)) (Handler f) = 0" for subs g
    by (cases g) (simp_all add: observer_sites_def b)
  then have "count_list (map fst (concat (map (observer_sites subs ty n meta) gs))) (Handler f) = 0"
    for subs gs
    by (induction gs) simp_all
  then show ?thesis
    by (simp add: dispatch_sites_def a)
qed

lemma count_observer_calls:
  "count_list (map fst (dispatch_sites s ty n meta)) (Observer g) =
     count_list (globalHandlers s) g"
proof -
  have a: "count_list (map (fst \<circ> (\<lambda>f. (Handler f, [n]))) fs) (Observer g) = 0" for fs
    by (induction fs) simp_all
  have b: "count_list (map (fst \<circ> (\<lambda>sb. (Subscriber sb, [n, meta]))) xs) (Observer x) = 0"
    for xs x
    by (induction xs) simp_all
  have "count_list (map fst (observer_sites subs ty n meta g')) (Observer g) =
      (if g' = g then 1 else 0)" for subs g'
    by (cases g') (simp_all add: observer_sites_def b)
  then have "count_list (map fst (concat (map (observer_sites subs ty n meta) gs))) (Observer g) =
      count_list gs g" for subs gs
    by (induction gs) simp_all
  then show ?thesis
    by (simp add: dispatch_sites_def a)
qed

text \<open>
  C5. For every event that passes the guards of the listener and whatever the callbacks
  do, the listener returns normally; every per-type handler registered for the type,
  then every global observer, and behind the forwarder every subscriber of the type, is
  called in the order of its registry, whether or not an earlier call threw: each
  handler of the type and each global observer exactly once, and nothing else as a
  handler or an observer. Each call that throws is answered by one line on
  \<^verbatim>\<open>console.error\<close>, so the lines written during the dispatch are as many as the
  calls that threw.
\<close>

theorem faults_isolated:
  assumes "accepted e" and "distinct (globalHandlers s)"
    and "distinct (handlers_of s (event_type e))"
  shows "(\<exists>s'. windowUnityMessageListener E e s = Inr s' \<and>
       map site (calls (trace s')) =
         map site (calls (trace s)) @
         dispatch_sites s (event_type e) (spec_normalized E (event_payload e)) (event_meta e) \<and>
       errors (trace s') + faults (trace s) = errors (trace s) + faults (trace s'))
     \<and> count_list (map fst (dispatch_sites s (event_type e)
           (spec_normalized E (event_payload e)) (event_meta e))) (Handler f) =
         (if f \<in> set (handlers_of s (event_type e)) then 1 else 0)
     \<and> count_list (map fst (dispatch_sites s (event_type e)
           (spec_normalized E (event_payload e)) (event_meta e))) (Observer g) =
         (if g \<in> set (globalHandlers s) then 1 else 0)"
  using listener_dispatch [OF assms(1,2), of E] assms(2,3)
  by (simp add: count_handler_sites count_observer_calls count_list_distinct) blast

theorem faults_isolated_witness:
  "accepted (message (JStr ''GameResult'') (JStr ''not-json''))
   \<and> distinct (globalHandlers example_sys)
   \<and> handlers_of example_sys (JStr ''GameResult'') = [100, 1]
   \<and> invoke example_env 100 [JStr ''not-json''] 0 = (False, 1)
   \<and> (\<exists>s'. windowUnityMessageListener example_env
          (message (JStr ''GameResult'') (JStr ''not-json'')) example_sys = Inr s' \<and>
        calls (trace s') =
          [(Handler 100, [JStr ''not-json''], False),
           (Handler 1, [JStr ''not-json''], True),
           (Observer (GHost 2), [JStr ''GameResult'', JStr ''not-json'', JUndefined], True),
           (Observer GForwarder, [JStr ''GameResult'', JStr ''not-json'', JUndefined], True),
           (Subscriber (SHost 3), [JStr ''not-json'', JUndefined], True)] \<and>
        errors (trace s') = 1 \<and> faults (trace s') = 1)"
proof -
  have hs: "handlers_of example_sys (JStr ''GameResult'') = [100, 1]"
    by (simp add: example_sys_eq handlers_of_def)
  note h = example_sys_hyps(1) [where p = "JStr ''not-json''"] example_sys_hyps(2)
  have d: "distinct (handlers_of example_sys
      (event_type (message (JStr ''GameResult'') (JStr ''not-json''))))"
    by (simp add: accepted_message hs)
  have i: "invoke example_env 100 [JStr ''not-json''] 0 = (False, 1)"
    by (simp add: example_env_def)
  have "\<exists>s'. windowUnityMessageListener example_env
          (message (JStr ''GameResult'') (JStr ''not-json'')) example_sys = Inr s' \<and>
        calls (trace s') =
          [(Handler 100, [JStr ''not-json''], False),
           (Handler 1, [JStr ''not-json''], True),
           (Observer (GHost 2), [JStr ''GameResult'', JStr ''not-json'', JUndefined], True),
           (Observer GForwarder, [JStr ''GameResult'', JStr ''not-json'', JUndefined], True),
           (Subscriber (SHost 3), [JStr ''not-json'', JUndefined], True)] \<and>
        errors (trace s') = 1 \<and> faults (trace s') = 1"
    using conjunct1 [OF faults_isolated [OF h d, of example_env]]
    by (simp add: example_dispatch_text)
  then show ?thesis
    using h hs i by blast
qed

text \<open>
  C10. An event object that fails a guard of the listener changes nothing and calls
  nobody: that is the case when it has no \<^verbatim>\<open>detail\<close>, when its \<^verbatim>\<open>detail\<close> is falsy or
  not an object, and when the \<^verbatim>\<open>type\<close> of its \<^verbatim>\<open>detail\<close> is \<^verbatim>\<open>null\<close> or
  \<^verbatim>\<open>undefined\<close>. A message of type \<^verbatim>\<open>0\<close> or \<^verbatim>\<open>''\<close> is dispatched like any other.
\<close>

theorem malformed_events_dropped:
  "(typeof_object e \<and> \<not> accepted e \<longrightarrow> windowUnityMessageListener E e s = Inr s)
   \<and> (\<not> has_prop ''detail'' e \<longrightarrow> \<not> accepted e)
   \<and> (accepted (custom_event d) \<longleftrightarrow>
        truthy d \<and> typeof_object d \<and>
        get_prop d ''type'' \<noteq> JUndefined \<and> get_prop d ''type'' \<noteq> JNull)
   \<and> (distinct (globalHandlers s) \<and> (ty = JNum 0 \<or> ty = JStr []) \<longrightarrow>
        (\<exists>s'. windowUnityMessageListener E (message ty p) s = Inr s' \<and>
           map site (calls (trace s')) =
             map site (calls (trace s)) @ dispatch_sites s ty (spec_normalized E p) JUndefined))"
proof -
  have 1: "typeof_object e \<and> \<not> accepted e \<longrightarrow> windowUnityMessageListener E e s = Inr s"
    by (auto simp: windowUnityMessageListener_def accepted_def event_detail_def event_type_def
          Let_def)
  have 2: "\<not> has_prop ''detail'' e \<longrightarrow> \<not> accepted e"
    by (simp add: accepted_def event_detail_def)
  have 4: "distinct (globalHandlers s) \<and> (ty = JNum 0 \<or> ty = JStr []) \<longrightarrow>
        (\<exists>s'. windowUnityMessageListener E (message ty p) s = Inr s' \<and>
           map site (calls (trace s')) =
             map site (calls (trace s)) @ dispatch_sites s ty (spec_normalized E p) JUndefined)"
  proof
    assume a: "distinct (globalHandlers s) \<and> (ty = JNum 0 \<or> ty = JStr [])"
    then have "accepted (message ty p)"
      by (auto simp: accepted_message)
    from listener_dispatch [OF this, of s E] a
    show "\<exists>s'. windowUnityMessageListener E (message ty p) s = Inr s' \<and>
           map site (calls (trace s')) =
             map site (calls (trace s)) @ dispatch_sites s ty (spec_normalized E p) JUndefined"
      by (auto simp: accepted_message)
  qed
  show ?thesis
    using 1 2 4 accepted_custom_event [of d] by blast
qed

theorem malformed_events_dropped_witness:
  "windowUnityMessageListener example_env (JObj [(''type'', JStr ''UnityMessage'')]) example_sys =
     Inr example_sys
   \<and> windowUnityMessageListener example_env (custom_event (JStr ''GameResult'')) example_sys =
     Inr example_sys
   \<and> windowUnityMessageListener example_env (custom_event JNull) example_sys = Inr example_sys
   \<and> windowUnityMessageListener example_env
       (message JNull (JStr ''not-json'')) example_sys = Inr example_sys
   \<and> windowUnityMessageListener example_env
       (custom_event (JObj [(''payload'', JStr ''not-json'')])) example_sys = Inr example_sys
   \<and> (\<exists>s'. windowUnityMessageListener example_env (message (JNum 0) JNull)
          (registerHandler (JNum 0) 5 example_sys) = Inr s' \<and>
        map site (calls (trace s')) =
          [(Handler 5, [JNull]),
           (Observer (GHost 2), [JNum 0, JNull, JUndefined]),
           (Observer GForwarder, [JNum 0, JNull, JUndefined])])
   \<and> (\<exists>s'. windowUnityMessageListener example_env (message (JStr []) JNull)
          (registerHandler (JStr []) 5 example_sys) = Inr s' \<and>
        map site (calls (trace s')) =
          [(Handler 5, [JNull]),
           (Observer (GHost 2), [JStr [], JNull, JUndefined]),
           (Observer GForwarder, [JStr [], JNull, JUndefined])])"
proof -
  note t = malformed_events_dropped [where E = example_env]
  have a: "windowUnityMessageListener example_env (JObj [(''type'', JStr ''UnityMessage'')])
      example_sys = Inr example_sys"
    using t [where e = "JObj [(''type'', JStr ''UnityMessage'')]" and s = example_sys]
    by simp
  have b: "windowUnityMessageListener example_env (custom_event (JStr ''GameResult''))
      example_sys = Inr example_sys"
    using t [where e = "custom_event (JStr ''GameResult'')" and s = example_sys
        and d = "JStr ''GameResult''"]
    by (simp add: custom_event_def)
  have c: "windowUnityMessageListener example_env (custom_event JNull) example_sys =
      Inr example_sys"
    using t [where e = "custom_event JNull" and s = example_sys and d = JNull]
    by (simp add: custom_event_def)
  have d: "windowUnityMessageListener example_env (message JNull (JStr ''not-json''))
      example_sys = Inr example_sys"
    using t [where e = "message JNull (JStr ''not-json'')" and s = example_sys
        and d = "JObj [(''type'', JNull), (''payload'', JStr ''not-json'')]"]
    by (simp add: custom_event_def message_def)
  have e: "windowUnityMessageListener example_env
      (custom_event (JObj [(''payload'', JStr ''not-json'')])) example_sys = Inr example_sys"
    using t [where e = "custom_event (JObj [(''payload'', JStr ''not-json'')])"
        and s = example_sys and d = "JObj [(''payload'', JStr ''not-json'')]"]
    by (simp add: custom_event_def)
  have f: "\<exists>s'. windowUnityMessageListener example_env (message (JNum 0) JNull)
          (registerHandler (JNum 0) 5 example_sys) = Inr s' \<and>
        map site (calls (trace s')) =
          [(Handler 5, [JNull]),
           (Observer (GHost 2), [JNum 0, JNull, JUndefined]),
           (Observer GForwarder, [JNum 0, JNull, JUndefined])]"
    using t [where s = "registerHandler (JNum 0) 5 example_sys" and ty = "JNum 0" and p = JNull
        and e = JNull and d = JNull]
    by (simp add: example_sys_eq init_sys_def dispatch_sites_def observer_sites_def
          handlers_of_def subs_of_def spec_normalized_def registerHandler_def map_set_def
          set_add_def)
  have g: "\<exists>s'. windowUnityMessageListener example_env (message (JStr []) JNull)
          (registerHandler (JStr []) 5 example_sys) = Inr s' \<and>
        map site (calls (trace s')) =
          [(Handler 5, [JNull]),
           (Observer (GHost 2), [JStr [], JNull, JUndefined]),
           (Observer GForwarder, [JStr [], JNull, JUndefined])]"
    using t [where s = "registerHandler (JStr []) 5 example_sys" and ty = "JStr []" and p = JNull
        and e = JNull and d = JNull]
    by (simp add: example_sys_eq init_sys_def dispatch_sites_def observer_sites_def
          handlers_of_def subs_of_def spec_normalized_def registerHandler_def map_set_def
          set_add_def)
  show ?thesis
    using a b c d e f g by blast
qed

section \<open>The event bus, proved\<close>

lemma subscriberCount_cong:
  "subscribers s = subscribers s' \<Longrightarrow> subscriberCount s = subscriberCount s'"
  by (simp add: subscriberCount_def)

lemma subscriberCount_zero:
  "subscriberCount s = 0 \<longleftrightarrow> (\<forall>x \<in> set (subscribers s). snd x = [])"
  by (auto simp: subscriberCount_def split_def)

lemma subscriberCount_pos:
  "map_of (subscribers s) k = Some fs \<Longrightarrow> fs \<noteq> [] \<Longrightarrow> 0 < subscriberCount s"
  using subscriberCount_zero [of s] by (force dest: map_of_SomeD)

lemma forwarders_distinct:
  "distinct (globalHandlers s) \<Longrightarrow>
   forwarders s = (if GForwarder \<in> set (globalHandlers s) then 1 else 0)"
  by (simp add: forwarders_def count_list_distinct)

lemma bus_inv_cong:
  "globalHandlers s = globalHandlers s' \<Longrightarrow> subscribers s = subscribers s' \<Longrightarrow>
   installed s = installed s' \<Longrightarrow> bus_inv s = bus_inv s'"
  by (simp add: bus_inv_def subscriberCount_def)

lemma bus_inv_forwarders:
  "bus_inv s \<Longrightarrow> forwarders s = (if 0 < subscriberCount s then 1 else 0)"
  by (auto simp: bus_inv_def forwarders_distinct)

lemma bus_inv_init: "bus_inv (init_sys h)"
  by (simp add: bus_inv_def init_sys_def subscriberCount_def)

lemma bus_inv_maybeUninstall:
  assumes "distinct (globalHandlers s)" "installed s = (GForwarder \<in> set (globalHandlers s))"
    and "distinct (map fst (subscribers s))" "list_all (\<lambda>x. distinct (snd x)) (subscribers s)"
    and "\<not> installed s \<Longrightarrow> subscriberCount s = 0"
  shows "bus_inv (maybeUninstall s)"
proof (cases "installed s \<and> subscriberCount s = 0")
  case True
  let ?s' = "(unregisterGlobalHandler GForwarder s)\<lparr>installed := False\<rparr>"
  have "subscriberCount ?s' = subscriberCount s" "subscribers ?s' = subscribers s"
    by (simp_all add: unregisterGlobalHandler_def subscriberCount_def)
  then have "bus_inv ?s'"
    using assms(1,3,4) True
    by (simp add: bus_inv_def unregisterGlobalHandler_def distinct_set_delete)
  then show ?thesis
    using True by (simp add: maybeUninstall_def)
next
  case False
  then have "maybeUninstall s = s"
    by (auto simp: maybeUninstall_def)
  then show ?thesis
    using assms False by (auto simp: bus_inv_def)
qed

lemma bus_inv_subscribe: "bus_inv s \<Longrightarrow> bus_inv (snd (subscribe ty f s))"
proof (cases f)
  case None
  assume "bus_inv s"
  then show ?thesis using None by (simp add: subscribe_def)
next
  case (Some fn)
  assume inv: "bus_inv s"
  let ?s1 = "install s"
  have g: "distinct (globalHandlers ?s1)" "GForwarder \<in> set (globalHandlers ?s1)"
    "installed ?s1" "subscribers ?s1 = subscribers s"
    using inv
    by (auto simp: bus_inv_def install_def registerGlobalHandler_def distinct_set_add)
  obtain fs s2 where e: "ensureSet ty ?s1 = (fs, s2)"
    by (cases "ensureSet ty ?s1")
  have s2: "globalHandlers s2 = globalHandlers ?s1" "installed s2 = installed ?s1"
    "distinct (map fst (subscribers s2))" "list_all (\<lambda>x. distinct (snd x)) (subscribers s2)"
    "map_of (subscribers s2) ty = Some fs"
    using e inv g(4)
    by (auto simp: ensureSet_def bus_inv_def keys_map_set sets_map_set map_of_map_set
          split: option.splits)
  have dfs: "distinct fs"
    using s2(4) map_of_SomeD [OF s2(5)] by (force simp: list_all_iff)
  let ?s3 = "s2\<lparr>subscribers := map_set ty (set_add fn fs) (subscribers s2)\<rparr>"
  have "map_of (subscribers ?s3) ty = Some (set_add fn fs)"
    by (simp add: map_of_map_set)
  then have "0 < subscriberCount ?s3"
    by (rule subscriberCount_pos) (auto simp: set_add_def)
  then have "bus_inv ?s3"
    using g s2 dfs by (simp add: bus_inv_def keys_map_set sets_map_set distinct_set_add)
  then show ?thesis
    using Some e by (simp add: subscribe_def Let_def)
qed

lemma bus_inv_unsubscribe: "bus_inv s \<Longrightarrow> bus_inv (unsubscribe ty fn s)"
proof (cases "map_of (subscribers s) ty")
  case None
  assume "bus_inv s"
  then show ?thesis using None by (simp add: unsubscribe_def)
next
  case (Some fs)
  assume inv: "bus_inv s"
  let ?fs = "set_delete fn fs"
  let ?s1 = "s\<lparr>subscribers := map_set ty ?fs (subscribers s)\<rparr>"
  let ?s2 = "if ?fs = [] then ?s1\<lparr>subscribers := map_delete ty (subscribers ?s1)\<rparr> else ?s1"
  have u: "unsubscribe ty fn s = maybeUninstall ?s2"
    using Some by (simp add: unsubscribe_def Let_def)
  have "distinct fs"
    using inv map_of_SomeD [OF Some] by (force simp: bus_inv_def list_all_iff)
  then have dfs: "distinct ?fs"
    by (rule distinct_set_delete)
  have "subscriberCount ?s2 = 0" if n: "\<not> installed s"
  proof -
    have z: "\<forall>x \<in> set (subscribers s). snd x = []"
      using inv n by (simp add: bus_inv_def subscriberCount_zero)
    then have "fs = []"
      using Some by (force dest: map_of_SomeD)
    then have "?fs = []"
      by (simp add: set_delete_def)
    moreover have "\<forall>x \<in> set (map_delete ty (map_set ty [] (subscribers s))). snd x = []"
      using z by (rule map_delete_set_empty)
    ultimately show ?thesis
      by (simp add: subscriberCount_zero)
  qed
  then have "bus_inv (maybeUninstall ?s2)"
    using inv dfs
    by (intro bus_inv_maybeUninstall)
       (auto simp: bus_inv_def keys_map_set keys_map_delete sets_map_set sets_map_delete)
  then show ?thesis
    using u by simp
qed

lemma bus_inv_once: "bus_inv s \<Longrightarrow> bus_inv (once ty h s)"
proof (cases h)
  case None
  assume "bus_inv s"
  then show ?thesis using None by (simp add: once_def)
next
  case (Some f)
  assume inv: "bus_inv s"
  have "bus_inv (s\<lparr>closures := Suc (closures s)\<rparr>) = bus_inv s"
    by (rule bus_inv_cong) simp_all
  then show ?thesis
    using Some inv by (simp add: once_def bus_inv_subscribe)
qed

lemma bus_inv_clear: "bus_inv s \<Longrightarrow> bus_inv (clear ty s)"
proof -
  assume inv: "bus_inv s"
  have z: "\<forall>x \<in> set (subscribers s). snd x = []" if "\<not> installed s"
    using inv that by (simp add: bus_inv_def subscriberCount_zero)
  have a: "bus_inv (maybeUninstall (s\<lparr>subscribers := []\<rparr>))"
    using inv by (intro bus_inv_maybeUninstall) (auto simp: bus_inv_def subscriberCount_zero)
  have b: "bus_inv (maybeUninstall (s\<lparr>subscribers := map_delete ty (subscribers s)\<rparr>))"
    using inv z
    by (intro bus_inv_maybeUninstall)
       (auto simp: bus_inv_def subscriberCount_zero set_map_delete keys_map_delete
          sets_map_delete)
  show ?thesis
    using a b by (simp add: clear_def)
qed

text \<open>The subscribers of a type after \<^verbatim>\<open>subscribe\<close> and after \<^verbatim>\<open>unsubscribe\<close>.\<close>

lemma subs_of_subscribe:
  "subs_of (snd (subscribe ty (Some fn) s)) ty' =
     (if ty' = ty then set_add fn (subs_of s ty) else subs_of s ty')"
  by (auto simp: subscribe_def install_def registerGlobalHandler_def ensureSet_def subs_of_def
        map_of_map_set Let_def split: option.splits)

lemma subscribers_maybeUninstall [simp]: "subscribers (maybeUninstall s) = subscribers s"
  by (simp add: maybeUninstall_def unregisterGlobalHandler_def)

lemma subs_of_unsubscribe:
  "subs_of (unsubscribe ty fn s) ty' =
     (if ty' = ty then set_delete fn (subs_of s ty) else subs_of s ty')"
proof (cases "map_of (subscribers s) ty")
  case None
  then show ?thesis
    by (simp add: unsubscribe_def subs_of_def set_delete_def)
next
  case (Some fs)
  show ?thesis
  proof (cases "set_delete fn fs = []")
    case True
    then show ?thesis
      using Some
      by (simp add: unsubscribe_def subs_of_def map_of_map_set map_of_map_delete Let_def)
  next
    case False
    then show ?thesis
      using Some by (simp add: unsubscribe_def subs_of_def map_of_map_set Let_def)
  qed
qed

lemma subs_of_once:
  "subs_of (once ty (Some h) s) ty' =
     (if ty' = ty then set_add (SOnce (closures s) ty h) (subs_of s ty) else subs_of s ty')"
  using subs_of_subscribe [of ty "SOnce (closures s) ty h" "s\<lparr>closures := Suc (closures s)\<rparr>" ty']
  by (simp add: once_def subs_of_def)

lemma subscriberCount_subs:
  assumes "distinct (map fst (subscribers s))"
  shows "subscriberCount s = 0 \<longleftrightarrow> (\<forall>k. subs_of s k = [])"
proof
  assume "subscriberCount s = 0"
  then have "\<forall>x \<in> set (subscribers s). snd x = []"
    by (simp add: subscriberCount_zero)
  then show "\<forall>k. subs_of s k = []"
    by (force simp: subs_of_def dest: map_of_SomeD split: option.splits)
next
  assume a: "\<forall>k. subs_of s k = []"
  have "snd x = []" if "x \<in> set (subscribers s)" for x
  proof -
    have "map_of (subscribers s) (fst x) = Some (snd x)"
      using assms that by (intro map_of_is_SomeI) simp_all
    then show ?thesis
      using a [rule_format, of "fst x"] by (simp add: subs_of_def)
  qed
  then show "subscriberCount s = 0"
    by (simp add: subscriberCount_zero)
qed

lemma fst_subscribe: "fst (subscribe ty (Some fn) s) = Some (ty, fn)"
  by (simp add: subscribe_def Let_def split: prod.splits)

lemma bus_inv_count:
  "bus_inv s \<Longrightarrow> subs_of s k \<noteq> [] \<Longrightarrow> 0 < subscriberCount s"
  using subscriberCount_subs [of s] by (auto simp: bus_inv_def)

lemma bus_inv_empty:
  "bus_inv s \<Longrightarrow> \<forall>k. subs_of s k = [] \<Longrightarrow> subscriberCount s = 0"
  using subscriberCount_subs [of s] by (auto simp: bus_inv_def)

lemma forwarder_site:
  "GForwarder \<in> set (globalHandlers s) \<Longrightarrow> sb \<in> set (subs_of s ty) \<Longrightarrow>
   (Subscriber sb, [n, meta]) \<in> set (dispatch_sites s ty n meta)"
  by (force simp: dispatch_sites_def observer_sites_def)

lemma subscribe_unsubscribe_scenario:
  assumes inv: "bus_inv s" and zero: "subscriberCount s = 0"
  shows "forwarders (snd (subscribe ta (Some fa) s)) = 1"
    and "forwarders (call_unsub (fst (subscribe ta (Some fa) s)) (snd (subscribe ta (Some fa) s))) = 0"
proof -
  let ?s1 = "snd (subscribe ta (Some fa) s)"
  have e: "\<forall>k. subs_of s k = []"
    using inv zero subscriberCount_subs [of s] by (simp add: bus_inv_def)
  have i1: "bus_inv ?s1"
    using inv by (rule bus_inv_subscribe)
  have s1: "subs_of ?s1 k = (if k = ta then [fa] else [])" for k
    using e by (simp add: subs_of_subscribe set_add_def)
  have "0 < subscriberCount ?s1"
    using i1 s1 [of ta] by (intro bus_inv_count [of ?s1 ta]) simp_all
  then show "forwarders ?s1 = 1"
    using bus_inv_forwarders [OF i1] by simp
  let ?s2 = "unsubscribe ta fa ?s1"
  have i2: "bus_inv ?s2"
    using i1 by (rule bus_inv_unsubscribe)
  have "\<forall>k. subs_of ?s2 k = []"
    by (simp add: subs_of_unsubscribe s1 set_delete_def)
  then have "subscriberCount ?s2 = 0"
    using i2 by (intro bus_inv_empty)
  then have "forwarders ?s2 = 0"
    using bus_inv_forwarders [OF i2] by simp
  then show "forwarders (call_unsub (fst (subscribe ta (Some fa) s)) ?s1) = 0"
    by (simp add: fst_subscribe call_unsub_def)
qed

lemma two_types_scenario:
  fixes s :: "'h sys" and fa fb :: sub and ta tb :: jsval
  assumes inv: "bus_inv s" and zero: "subscriberCount s = 0" and ne: "ta \<noteq> tb"
  defines "s1 \<equiv> snd (subscribe ta (Some fa) s)"
  defines "s2 \<equiv> snd (subscribe tb (Some fb) s1)"
  defines "s3 \<equiv> call_unsub (fst (subscribe ta (Some fa) s)) s2"
  shows "bus_inv s3" "forwarders s3 = 1" "subs_of s3 ta = []" "subs_of s3 tb = [fb]"
    "GForwarder \<in> set (globalHandlers s3)"
proof -
  have e: "\<forall>k. subs_of s k = []"
    using inv zero subscriberCount_subs [of s] by (simp add: bus_inv_def)
  have s3: "s3 = unsubscribe ta fa s2"
    by (simp add: s3_def fst_subscribe call_unsub_def)
  show i3: "bus_inv s3"
    unfolding s3 s2_def s1_def
    by (intro bus_inv_unsubscribe bus_inv_subscribe inv)
  show a: "subs_of s3 ta = []" and b: "subs_of s3 tb = [fb]"
    using e ne
    by (simp_all add: s3 s2_def s1_def subs_of_unsubscribe subs_of_subscribe set_add_def
          set_delete_def)
  have c: "0 < subscriberCount s3"
    using i3 b by (intro bus_inv_count [of s3 tb]) simp_all
  then show "forwarders s3 = 1"
    using bus_inv_forwarders [OF i3] by simp
  show "GForwarder \<in> set (globalHandlers s3)"
    using i3 c by (auto simp: bus_inv_def)
qed

text \<open>
  C8. The invariant of the bus holds at the start and is kept by \<^verbatim>\<open>subscribe\<close>,
  \<^verbatim>\<open>unsubscribe\<close>, \<^verbatim>\<open>once\<close> and \<^verbatim>\<open>clear\<close>; under it the forwarder is among
  the global observers of the bridge exactly once when the bus has a subscriber and not at
  all when it has none. From a bus without subscribers, \<^verbatim>\<open>subscribe\<close> installs the
  forwarder and calling the function it returns removes it again. With two types
  subscribed, unsubscribing the first leaves the forwarder installed and the subscriber
  of the second is still called by a dispatch of its type.
\<close>

theorem forwarder_follows_subscribers:
  "bus_inv (init_sys h)
   \<and> (bus_inv s \<longrightarrow>
        bus_inv (snd (subscribe ty f s)) \<and> bus_inv (unsubscribe ty fn s) \<and>
        bus_inv (once ty g s) \<and> bus_inv (clear ty s) \<and>
        installed s = (0 < subscriberCount s) \<and>
        forwarders s = (if 0 < subscriberCount s then 1 else 0))
   \<and> (bus_inv s \<and> subscriberCount s = 0 \<longrightarrow>
        forwarders (snd (subscribe ta (Some fa) s)) = 1 \<and>
        forwarders (call_unsub (fst (subscribe ta (Some fa) s))
                      (snd (subscribe ta (Some fa) s))) = 0)
   \<and> (bus_inv s \<and> subscriberCount s = 0 \<and> ta \<noteq> tb \<and> tb \<noteq> JUndefined \<and> tb \<noteq> JNull \<longrightarrow>
        (let s3 = call_unsub (fst (subscribe ta (Some fa) s))
                    (snd (subscribe tb (Some fb) (snd (subscribe ta (Some fa) s))))
         in forwarders s3 = 1 \<and> subs_of s3 ta = [] \<and> subs_of s3 tb = [fb] \<and>
            (\<exists>s'. windowUnityMessageListener E (message tb p) s3 = Inr s' \<and>
               map site (calls (trace s')) =
                 map site (calls (trace s3)) @
                 dispatch_sites s3 tb (spec_normalized E p) JUndefined \<and>
               (Subscriber fb, [spec_normalized E p, JUndefined]) \<in>
                 set (dispatch_sites s3 tb (spec_normalized E p) JUndefined))))"
proof -
  have 2: "bus_inv s \<longrightarrow>
        bus_inv (snd (subscribe ty f s)) \<and> bus_inv (unsubscribe ty fn s) \<and>
        bus_inv (once ty g s) \<and> bus_inv (clear ty s) \<and>
        installed s = (0 < subscriberCount s) \<and>
        forwarders s = (if 0 < subscriberCount s then 1 else 0)"
  proof
    assume i: "bus_inv s"
    have "installed s = (0 < subscriberCount s)"
      using i by (auto simp: bus_inv_def)
    then show "bus_inv (snd (subscribe ty f s)) \<and> bus_inv (unsubscribe ty fn s) \<and>
        bus_inv (once ty g s) \<and> bus_inv (clear ty s) \<and>
        installed s = (0 < subscriberCount s) \<and>
        forwarders s = (if 0 < subscriberCount s then 1 else 0)"
      using bus_inv_subscribe [OF i] bus_inv_unsubscribe [OF i] bus_inv_once [OF i]
        bus_inv_clear [OF i] bus_inv_forwarders [OF i]
      by blast
  qed
  have 3: "bus_inv s \<and> subscriberCount s = 0 \<longrightarrow>
        forwarders (snd (subscribe ta (Some fa) s)) = 1 \<and>
        forwarders (call_unsub (fst (subscribe ta (Some fa) s))
                      (snd (subscribe ta (Some fa) s))) = 0"
    using subscribe_unsubscribe_scenario [of s ta fa] by blast
  have 4: "bus_inv s \<and> subscriberCount s = 0 \<and> ta \<noteq> tb \<and> tb \<noteq> JUndefined \<and> tb \<noteq> JNull \<longrightarrow>
        (let s3 = call_unsub (fst (subscribe ta (Some fa) s))
                    (snd (subscribe tb (Some fb) (snd (subscribe ta (Some fa) s))))
         in forwarders s3 = 1 \<and> subs_of s3 ta = [] \<and> subs_of s3 tb = [fb] \<and>
            (\<exists>s'. windowUnityMessageListener E (message tb p) s3 = Inr s' \<and>
               map site (calls (trace s')) =
                 map site (calls (trace s3)) @
                 dispatch_sites s3 tb (spec_normalized E p) JUndefined \<and>
               (Subscriber fb, [spec_normalized E p, JUndefined]) \<in>
                 set (dispatch_sites s3 tb (spec_normalized E p) JUndefined)))"
  proof
    assume a: "bus_inv s \<and> subscriberCount s = 0 \<and> ta \<noteq> tb \<and> tb \<noteq> JUndefined \<and> tb \<noteq> JNull"
    let ?s3 = "call_unsub (fst (subscribe ta (Some fa) s))
                 (snd (subscribe tb (Some fb) (snd (subscribe ta (Some fa) s))))"
    have inv: "bus_inv s" and zero: "subscriberCount s = 0" and ne: "ta \<noteq> tb"
      using a by simp_all
    note f = two_types_scenario [OF inv zero ne, of fa fb]
    have acc: "accepted (message tb p)"
      using a by (simp add: accepted_message)
    have d: "distinct (globalHandlers ?s3)"
      using f(1) by (simp add: bus_inv_def)
    have m: "(Subscriber fb, [spec_normalized E p, JUndefined]) \<in>
        set (dispatch_sites ?s3 tb (spec_normalized E p) JUndefined)"
      using f(4,5) by (intro forwarder_site) simp_all
    show "let s3 = ?s3
         in forwarders s3 = 1 \<and> subs_of s3 ta = [] \<and> subs_of s3 tb = [fb] \<and>
            (\<exists>s'. windowUnityMessageListener E (message tb p) s3 = Inr s' \<and>
               map site (calls (trace s')) =
                 map site (calls (trace s3)) @
                 dispatch_sites s3 tb (spec_normalized E p) JUndefined \<and>
               (Subscriber fb, [spec_normalized E p, JUndefined]) \<in>
                 set (dispatch_sites s3 tb (spec_normalized E p) JUndefined))"
      using listener_dispatch [OF acc d, of E] f(2,3,4) m
      by (auto simp: Let_def accepted_message)
  qed
  show ?thesis
    using bus_inv_init [of h] 2 3 4 by blast
qed

lemmas bus_eval = subscribe_def unsubscribe_def call_unsub_def install_def maybeUninstall_def
  registerGlobalHandler_def unregisterGlobalHandler_def ensureSet_def subscriberCount_def
  map_set_def map_delete_def set_add_def set_delete_def init_sys_def Let_def

lemma example_bus_eq:
  "example_bus = (init_sys (0::nat))\<lparr>globalHandlers := [GForwarder],
     subscribers := [(JStr ''UnityReady'', [SHost 4])], installed := True\<rparr>"
  by (simp add: example_bus_def bus_eval)

theorem forwarder_follows_subscribers_witness:
  "bus_inv (init_sys (0::nat)) \<and> subscriberCount (init_sys (0::nat)) = 0
   \<and> forwarders (snd (subscribe (JStr ''GameResult'') (Some (SHost 3)) (init_sys (0::nat)))) = 1
   \<and> forwarders (call_unsub (fst (subscribe (JStr ''GameResult'') (Some (SHost 3)) (init_sys (0::nat))))
        (snd (subscribe (JStr ''GameResult'') (Some (SHost 3)) (init_sys (0::nat))))) = 0
   \<and> forwarders example_bus = 1
   \<and> subs_of example_bus (JStr ''GameResult'') = []
   \<and> subs_of example_bus (JStr ''UnityReady'') = [SHost 4]
   \<and> (\<exists>s'. windowUnityMessageListener example_env (message (JStr ''UnityReady'') JNull)
          example_bus = Inr s' \<and>
        map site (calls (trace s')) =
          [(Observer GForwarder, [JStr ''UnityReady'', JNull, JUndefined]),
           (Subscriber (SHost 4), [JNull, JUndefined])])"
proof -
  have h: "bus_inv (init_sys (0::nat))" "subscriberCount (init_sys (0::nat)) = 0"
    by (simp_all add: bus_inv_def init_sys_def subscriberCount_def)
  note t = forwarder_follows_subscribers [where s = "init_sys (0::nat)" and h = "0::nat"
      and ta = "JStr ''GameResult''" and fa = "SHost 3" and tb = "JStr ''UnityReady''"
      and fb = "SHost 4" and E = example_env and p = JNull]
  have a: "forwarders (snd (subscribe (JStr ''GameResult'') (Some (SHost 3)) (init_sys (0::nat)))) = 1
     \<and> forwarders (call_unsub (fst (subscribe (JStr ''GameResult'') (Some (SHost 3)) (init_sys (0::nat))))
        (snd (subscribe (JStr ''GameResult'') (Some (SHost 3)) (init_sys (0::nat))))) = 0"
    using t h by blast
  have "let s3 = example_bus
         in forwarders s3 = 1 \<and> subs_of s3 (JStr ''GameResult'') = [] \<and>
            subs_of s3 (JStr ''UnityReady'') = [SHost 4] \<and>
            (\<exists>s'. windowUnityMessageListener example_env (message (JStr ''UnityReady'') JNull) s3 =
                 Inr s' \<and>
               map site (calls (trace s')) =
                 map site (calls (trace s3)) @
                 dispatch_sites s3 (JStr ''UnityReady'') (spec_normalized example_env JNull)
                   JUndefined \<and>
               (Subscriber (SHost 4), [spec_normalized example_env JNull, JUndefined]) \<in>
                 set (dispatch_sites s3 (JStr ''UnityReady'') (spec_normalized example_env JNull)
                   JUndefined))"
    using t h unfolding example_bus_def by simp
  then have b: "forwarders example_bus = 1 \<and> subs_of example_bus (JStr ''GameResult'') = [] \<and>
      subs_of example_bus (JStr ''UnityReady'') = [SHost 4] \<and>
      (\<exists>s'. windowUnityMessageListener example_env (message (JStr ''UnityReady'') JNull)
          example_bus = Inr s' \<and>
        map site (calls (trace s')) =
          [(Observer GForwarder, [JStr ''UnityReady'', JNull, JUndefined]),
           (Subscriber (SHost 4), [JNull, JUndefined])])"
    by (simp add: Let_def example_bus_eq init_sys_def dispatch_sites_def observer_sites_def
          handlers_of_def subs_of_def spec_normalized_def)
  show ?thesis
    using h a b by blast
qed

text \<open>The other operations of the bridge keep the invariant of the bus.\<close>

lemma doSend_registries:
  "globalHandlers (snd (doSend E ob me p s)) = globalHandlers s"
  "subscribers (snd (doSend E ob me p s)) = subscribers s"
  "installed (snd (doSend E ob me p s)) = installed s"
  by (simp_all add: doSend_def emit_def Let_def split: option.splits prod.splits)

lemma flush_registries:
  "globalHandlers (flush E items s) = globalHandlers s"
  "subscribers (flush E items s) = subscribers s"
  "installed (flush E items s) = installed s"
  by (induction items arbitrary: s; simp add: doSend_registries)+

lemma bus_inv_bridge:
  "bus_inv (registerHandler ev fn s) = bus_inv s"
  "bus_inv (unregisterHandler ev fn s) = bus_inv s"
  "bus_inv (snd (send E ob me p q s)) = bus_inv s"
  "bus_inv (setInstance E x s) = bus_inv s"
  "bus_inv (clearInstance s) = bus_inv s"
  "bus_inv (snd (whenReady s)) = bus_inv s"
  by (rule bus_inv_cong;
      simp add: registerHandler_def unregisterHandler_def send_def doSend_registries
        setInstance_def flush_registries clearInstance_def whenReady_def
        ensureReadyPromise_def Let_def split: option.splits)+

lemma bus_inv_observers:
  "bus_inv s \<Longrightarrow> bus_inv (registerGlobalHandler (GHost n) s)"
  "bus_inv s \<Longrightarrow> bus_inv (unregisterGlobalHandler (GHost n) s)"
proof -
  have c: "subscriberCount (registerGlobalHandler (GHost n) s) = subscriberCount s"
    "subscriberCount (unregisterGlobalHandler (GHost n) s) = subscriberCount s"
    by (rule subscriberCount_cong,
        simp add: registerGlobalHandler_def unregisterGlobalHandler_def)+
  show "bus_inv s \<Longrightarrow> bus_inv (registerGlobalHandler (GHost n) s)"
    unfolding bus_inv_def c
    by (auto simp: registerGlobalHandler_def distinct_set_add)
  show "bus_inv s \<Longrightarrow> bus_inv (unregisterGlobalHandler (GHost n) s)"
    unfolding bus_inv_def c
    by (auto simp: unregisterGlobalHandler_def distinct_set_delete)
qed

section \<open>Dispatch through the bus, proved\<close>

lemma bus_inv_emit [simp]:
  "bus_inv (emit e s) = bus_inv s"
  "bus_inv (s\<lparr>host := h\<rparr>) = bus_inv s"
  "bus_inv (s\<lparr>trace := tr\<rparr>) = bus_inv s"
  by (rule bus_inv_cong; simp add: emit_def)+

lemma subs_of_emit [simp]:
  "subs_of (emit e s) k = subs_of s k"
  "subs_of (s\<lparr>host := h\<rparr>) k = subs_of s k"
  "subs_of (s\<lparr>trace := tr\<rparr>) k = subs_of s k"
  by (simp_all add: subs_of_def emit_def)

lemma bus_inv_call_sub: "bus_inv s \<Longrightarrow> bus_inv (snd (call_sub E f args s))"
  by (cases f) (simp_all add: Let_def bus_inv_unsubscribe split: prod.splits)

lemma bus_inv_forward_loop: "bus_inv s \<Longrightarrow> bus_inv (forward_loop E fs args s)"
proof (induction fs arbitrary: s)
  case Nil
  then show ?case by simp
next
  case (Cons f fs)
  show ?case
    unfolding forward_loop_Cons
    by (rule Cons.IH) (simp add: bus_inv_call_sub Cons.prems)
qed

lemma bus_inv_globalForwarder: "bus_inv s \<Longrightarrow> bus_inv (globalForwarder E ty p meta s)"
  by (simp add: globalForwarder_def bus_inv_forward_loop split: option.splits)

lemma bus_inv_call_global: "bus_inv s \<Longrightarrow> bus_inv (snd (call_global E g ty p meta s))"
  by (cases g) (simp_all add: bus_inv_globalForwarder split: prod.splits)

lemma bus_inv_global_loop: "bus_inv s \<Longrightarrow> bus_inv (global_loop E gs ty p meta s)"
proof (induction gs arbitrary: s)
  case Nil
  then show ?case by simp
next
  case (Cons g gs)
  show ?case
    unfolding global_loop_Cons
    by (rule Cons.IH) (simp add: bus_inv_call_global Cons.prems)
qed

lemma bus_inv_handler_loop: "bus_inv (handler_loop E fs p s) = bus_inv s"
  by (rule bus_inv_cong) (simp_all add: handler_loop_registries)

lemma bus_inv_listener:
  assumes "accepted e" and "bus_inv s" and "windowUnityMessageListener E e s = Inr s'"
  shows "bus_inv s'"
  using assms(2,3) unfolding listener_accepted [OF assms(1)]
  by (auto simp: emitToGlobalHandlers_def emitToHandlers_def bus_inv_handler_loop
        intro!: bus_inv_global_loop split: option.splits)

text \<open>A subscriber that is gone stays gone during a dispatch.\<close>

lemma absent_call_sub:
  "w \<notin> set (subs_of s k) \<Longrightarrow> w \<notin> set (subs_of (snd (call_sub E f args s)) k)"
  by (cases f) (auto simp: Let_def subs_of_unsubscribe split: prod.splits)

lemma absent_forward_loop:
  "w \<notin> set (subs_of s k) \<Longrightarrow> w \<notin> set (subs_of (forward_loop E fs args s) k)"
proof (induction fs arbitrary: s)
  case Nil
  then show ?case by simp
next
  case (Cons f fs)
  show ?case
    unfolding forward_loop_Cons
    by (rule Cons.IH) (simp add: absent_call_sub Cons.prems)
qed

lemma absent_globalForwarder:
  "w \<notin> set (subs_of s k) \<Longrightarrow> w \<notin> set (subs_of (globalForwarder E ty p meta s) k)"
  by (simp add: globalForwarder_def absent_forward_loop split: option.splits)

lemma absent_call_global:
  "w \<notin> set (subs_of s k) \<Longrightarrow> w \<notin> set (subs_of (snd (call_global E g ty p meta s)) k)"
  by (cases g) (simp_all add: absent_globalForwarder split: prod.splits)

lemma absent_global_loop:
  "w \<notin> set (subs_of s k) \<Longrightarrow> w \<notin> set (subs_of (global_loop E gs ty p meta s) k)"
proof (induction gs arbitrary: s)
  case Nil
  then show ?case by simp
next
  case (Cons g gs)
  show ?case
    unfolding global_loop_Cons
    by (rule Cons.IH) (simp add: absent_call_global Cons.prems)
qed

text \<open>
  The closure of \<^verbatim>\<open>once\<close> is gone after its first call, whatever its handler did, and
  the outcome of the call is the outcome of the handler.
\<close>

lemma once_call_sub:
  "fst (call_sub E (SOnce i ty h) args s) = fst (invoke E h args (host s))"
  "SOnce i ty h \<notin> set (subs_of (snd (call_sub E (SOnce i ty h) args s)) ty)"
  by (simp_all add: Let_def subs_of_unsubscribe split: prod.splits)

lemma once_forward_loop:
  "SOnce i ty h \<in> set fs \<Longrightarrow>
   SOnce i ty h \<notin> set (subs_of (forward_loop E fs args s) ty)"
proof (induction fs arbitrary: s)
  case Nil
  then show ?case by simp
next
  case (Cons f fs)
  let ?r = "call_sub E f args s"
  let ?s2 = "if fst ?r then snd ?r else emit ConsoleError (snd ?r)"
  show ?case
  proof (cases "f = SOnce i ty h")
    case True
    have "SOnce i ty h \<notin> set (subs_of ?s2 ty)"
      using once_call_sub(2) [of i ty h E args s] by (simp add: True)
    then show ?thesis
      unfolding forward_loop_Cons by (rule absent_forward_loop)
  next
    case False
    then have "SOnce i ty h \<in> set fs"
      using Cons.prems by simp
    then show ?thesis
      unfolding forward_loop_Cons by (rule Cons.IH)
  qed
qed

lemma once_globalForwarder:
  "SOnce i ty h \<notin> set (subs_of (globalForwarder E ty p meta s) ty)"
proof (cases "SOnce i ty h \<in> set (subs_of s ty)")
  case True
  then obtain fs where fs: "map_of (subscribers s) ty = Some fs" "SOnce i ty h \<in> set fs"
    by (cases "map_of (subscribers s) ty") (auto simp: subs_of_def)
  then have "fs \<noteq> []"
    by auto
  then show ?thesis
    using fs by (simp add: globalForwarder_def once_forward_loop)
next
  case False
  then show ?thesis
    by (rule absent_globalForwarder)
qed

lemma once_global_loop:
  "GForwarder \<in> set gs \<Longrightarrow>
   SOnce i ty h \<notin> set (subs_of (global_loop E gs ty p meta s) ty)"
proof (induction gs arbitrary: s)
  case Nil
  then show ?case by simp
next
  case (Cons g gs)
  let ?r = "call_global E g ty p meta s"
  let ?s2 = "if fst ?r then snd ?r else emit ConsoleError (snd ?r)"
  show ?case
  proof (cases "g = GForwarder")
    case True
    have "SOnce i ty h \<notin> set (subs_of ?s2 ty)"
      using once_globalForwarder [of i ty h E p meta] by (simp add: True)
    then show ?thesis
      unfolding global_loop_Cons by (rule absent_global_loop)
  next
    case False
    then have "GForwarder \<in> set gs"
      using Cons.prems by simp
    then show ?thesis
      unfolding global_loop_Cons by (rule Cons.IH)
  qed
qed

lemma absent_listener:
  assumes "accepted e" and "w \<notin> set (subs_of s k)"
    and "windowUnityMessageListener E e s = Inr s'"
  shows "w \<notin> set (subs_of s' k)"
proof -
  let ?s1 = "s\<lparr>trace := trace s @
                 (case event_payload e of JStr str \<Rightarrow> [Parsed str] | _ \<Rightarrow> [])\<rparr>"
  let ?s2 = "emitToHandlers E (event_type e) (spec_normalized E (event_payload e)) ?s1"
  have "subs_of ?s2 k = subs_of s k"
    by (simp add: emitToHandlers_def subs_of_def handler_loop_registries split: option.splits)
  then have "w \<notin> set (subs_of ?s2 k)"
    using assms(2) by simp
  then have "w \<notin> set (subs_of (global_loop E (globalHandlers ?s2) (event_type e)
      (spec_normalized E (event_payload e)) (event_meta e) ?s2) k)"
    by (rule absent_global_loop)
  moreover have "s' = global_loop E (globalHandlers ?s2) (event_type e)
      (spec_normalized E (event_payload e)) (event_meta e) ?s2"
    using assms(3) unfolding listener_accepted [OF assms(1)]
    by (simp add: emitToGlobalHandlers_def)
  ultimately show ?thesis
    by simp
qed

lemma once_listener:
  assumes "accepted e" and "event_type e = ty" and "GForwarder \<in> set (globalHandlers s)"
    and "windowUnityMessageListener E e s = Inr s'"
  shows "SOnce i ty h \<notin> set (subs_of s' ty)"
proof -
  let ?s1 = "s\<lparr>trace := trace s @
                 (case event_payload e of JStr str \<Rightarrow> [Parsed str] | _ \<Rightarrow> [])\<rparr>"
  let ?s2 = "emitToHandlers E (event_type e) (spec_normalized E (event_payload e)) ?s1"
  have "globalHandlers ?s2 = globalHandlers s"
    by (simp add: emitToHandlers_def handler_loop_registries split: option.splits)
  then have "GForwarder \<in> set (globalHandlers ?s2)"
    using assms(3) by simp
  then have "SOnce i ty h \<notin> set (subs_of (global_loop E (globalHandlers ?s2) ty
      (spec_normalized E (event_payload e)) (event_meta e) ?s2) ty)"
    by (rule once_global_loop)
  moreover have "s' = global_loop E (globalHandlers ?s2) ty
      (spec_normalized E (event_payload e)) (event_meta e) ?s2"
    using assms(4) unfolding listener_accepted [OF assms(1)] assms(2)
    by (simp add: emitToGlobalHandlers_def)
  ultimately show ?thesis
    by simp
qed

text \<open>How often a dispatch calls a subscriber.\<close>

lemma called_sites:
  "map site (calls tr') = map site (calls tr) @ sites \<Longrightarrow>
   called sb tr' = called sb tr + count_list (map fst sites) (Subscriber sb)"
proof -
  assume a: "map site (calls tr') = map site (calls tr) @ sites"
  have f: "map fst (calls x) = map fst (map site (calls x))" for x
    by (simp add: site_def comp_def)
  show ?thesis
    unfolding called_def f a by simp
qed

lemma count_observer_sites:
  "count_list (map fst (concat (map (observer_sites subs ty n meta) gs))) (Subscriber sb) =
     count_list gs GForwarder * count_list subs sb"
proof (induction gs)
  case Nil
  show ?case by simp
next
  case (Cons g gs)
  have "count_list (map Subscriber xs) (Subscriber sb) = count_list xs sb" for xs
    by (induction xs) simp_all
  then have "count_list (map fst (observer_sites subs ty n meta g)) (Subscriber sb) =
      (if g = GForwarder then count_list subs sb else 0)"
    by (cases g) (simp_all add: observer_sites_def comp_def)
  then show ?case
    using Cons.IH by simp
qed

lemma count_dispatch_sites:
  "count_list (map fst (dispatch_sites s ty n meta)) (Subscriber sb) =
     forwarders s * count_list (subs_of s ty) sb"
proof -
  have "count_list (map (fst \<circ> (\<lambda>f. (Handler f, [n]))) fs) (Subscriber sb) = 0" for fs
    by (induction fs) simp_all
  then show ?thesis
    by (simp add: dispatch_sites_def count_observer_sites forwarders_def)
qed

lemma bus_inv_sets:
  "bus_inv s \<Longrightarrow> distinct (subs_of s k)"
proof (cases "map_of (subscribers s) k")
  case None
  then show ?thesis by (simp add: subs_of_def)
next
  case (Some fs)
  assume "bus_inv s"
  then have "distinct fs"
    using map_of_SomeD [OF Some] by (force simp: bus_inv_def list_all_iff)
  then show ?thesis
    using Some by (simp add: subs_of_def)
qed

lemma later_dispatches:
  assumes "bus_inv s" and "\<forall>e \<in> set es. accepted e \<and> event_type e = ty"
    and "w \<notin> set (subs_of s ty)"
  shows "\<exists>s'. dispatch_all E es s = Inr s' \<and> called w (trace s') = called w (trace s) \<and>
           w \<notin> set (subs_of s' ty)"
  using assms
proof (induction es arbitrary: s)
  case Nil
  then show ?case by simp
next
  case (Cons e es)
  have acc: "accepted e" and ty: "event_type e = ty"
    using Cons.prems(2) by simp_all
  have d: "distinct (globalHandlers s)"
    using Cons.prems(1) by (simp add: bus_inv_def)
  obtain s1 where s1: "windowUnityMessageListener E e s = Inr s1"
    and sites: "map site (calls (trace s1)) =
       map site (calls (trace s)) @
       dispatch_sites s (event_type e) (spec_normalized E (event_payload e)) (event_meta e)"
    using listener_dispatch [OF acc d, of E] by blast
  have c: "called w (trace s1) = called w (trace s)"
    using called_sites [OF sites, of w] Cons.prems(3)
    by (simp add: count_dispatch_sites ty)
  have "bus_inv s1"
    using acc Cons.prems(1) s1 by (rule bus_inv_listener)
  moreover have "w \<notin> set (subs_of s1 ty)"
    using acc Cons.prems(3) s1 by (rule absent_listener)
  ultimately obtain s' where "dispatch_all E es s1 = Inr s'"
    "called w (trace s') = called w (trace s1)" "w \<notin> set (subs_of s' ty)"
    using Cons.IH [of s1] Cons.prems(2) by auto
  then show ?case
    using s1 c by simp
qed

text \<open>
  With callbacks that cause no dispatch while they run: after \<^verbatim>\<open>once(ty, h)\<close> the
  closure it builds is subscribed to \<open>ty\<close>. Over
  one or more dispatches of events of type \<open>ty\<close> the closure, and through it \<open>h\<close>,
  is called exactly once, and it is no longer subscribed afterwards. A call of the
  closure ends as the call of \<open>h\<close> inside it ends, so a fault of \<open>h\<close> leaves the
  closure; the closure has unsubscribed itself all the same, and the loop of the
  forwarder logs the fault and goes on with the next subscriber.
\<close>

theorem once_fires_once:
  assumes "bus_inv s" and "accepted e" and "event_type e = ty"
    and "\<forall>e' \<in> set es. accepted e' \<and> event_type e' = ty"
  shows "SOnce (closures s) ty h \<in> set (subs_of (once ty (Some h) s) ty)
     \<and> (\<exists>s'. dispatch_all E (e # es) (once ty (Some h) s) = Inr s' \<and>
          called (SOnce (closures s) ty h) (trace s') =
            Suc (called (SOnce (closures s) ty h) (trace s)) \<and>
          SOnce (closures s) ty h \<notin> set (subs_of s' ty))
     \<and> fst (call_sub E (SOnce i ty h) args u) = fst (invoke E h args (host u))
     \<and> SOnce i ty h \<notin> set (subs_of (snd (call_sub E (SOnce i ty h) args u)) ty)
     \<and> (\<not> fst (invoke E h args (host u)) \<longrightarrow>
          forward_loop E (SOnce i ty h # fs) args u =
            forward_loop E fs args (emit ConsoleError (snd (call_sub E (SOnce i ty h) args u))))"
proof -
  let ?w = "SOnce (closures s) ty h"
  let ?s1 = "once ty (Some h) s"
  have i1: "bus_inv ?s1"
    using assms(1) by (rule bus_inv_once)
  have m: "?w \<in> set (subs_of ?s1 ty)"
    by (simp add: subs_of_once)
  then have "0 < subscriberCount ?s1"
    using i1 by (intro bus_inv_count [of ?s1 ty]) auto
  then have f: "forwarders ?s1 = 1" "GForwarder \<in> set (globalHandlers ?s1)"
    using i1 bus_inv_forwarders [OF i1] by (auto simp: bus_inv_def)
  have c1: "count_list (subs_of ?s1 ty) ?w = 1"
    using m bus_inv_sets [OF i1, of ty] by (simp add: count_list_distinct)
  have d: "distinct (globalHandlers ?s1)"
    using i1 by (simp add: bus_inv_def)
  have tr: "trace ?s1 = trace s"
    by (simp add: once_def subscribe_def install_def registerGlobalHandler_def ensureSet_def
          Let_def split: option.splits)
  obtain s2 where s2: "windowUnityMessageListener E e ?s1 = Inr s2"
    and sites: "map site (calls (trace s2)) =
       map site (calls (trace ?s1)) @
       dispatch_sites ?s1 (event_type e) (spec_normalized E (event_payload e)) (event_meta e)"
    using listener_dispatch [OF assms(2) d, of E] by blast
  have c2: "called ?w (trace s2) = Suc (called ?w (trace s))"
    using called_sites [OF sites, of ?w]
    by (simp add: count_dispatch_sites assms(3) f(1) c1 tr)
  have i2: "bus_inv s2"
    using assms(2) i1 s2 by (rule bus_inv_listener)
  have a2: "?w \<notin> set (subs_of s2 ty)"
    using assms(2,3) f(2) s2 by (rule once_listener)
  obtain s' where "dispatch_all E es s2 = Inr s'"
    "called ?w (trace s') = called ?w (trace s2)" "?w \<notin> set (subs_of s' ty)"
    using later_dispatches [OF i2 assms(4) a2, of E] by blast
  then have first: "\<exists>s'. dispatch_all E (e # es) ?s1 = Inr s' \<and>
      called ?w (trace s') = Suc (called ?w (trace s)) \<and> ?w \<notin> set (subs_of s' ty)"
    using s2 c2 by simp
  have last: "\<not> fst (invoke E h args (host u)) \<longrightarrow>
      forward_loop E (SOnce i ty h # fs) args u =
        forward_loop E fs args (emit ConsoleError (snd (call_sub E (SOnce i ty h) args u)))"
    unfolding forward_loop_Cons once_call_sub(1) by simp
  show ?thesis
    using m first last
      once_call_sub [where E = E and i = i and ty = ty and h = h and args = args and s = u]
    by blast
qed

lemma example_once_eq:
  "example_once = (init_sys 0)\<lparr>globalHandlers := [GForwarder],
     subscribers := [(JStr ''GameResult'', [SOnce 0 (JStr ''GameResult'') 100])],
     installed := True, closures := 1\<rparr>"
  by (simp add: example_once_def once_def bus_eval)

lemma example_once_first:
  "windowUnityMessageListener example_env (message (JStr ''GameResult'') JNull) example_once =
     Inr ((init_sys 0)\<lparr>closures := 1, host := 1, trace :=
       [Called (Observer GForwarder) [JStr ''GameResult'', JNull, JUndefined] True,
        Called (Subscriber (SOnce 0 (JStr ''GameResult'') 100)) [JNull, JUndefined] False,
        ConsoleError]\<rparr>)"
  by (simp add: listener_accepted accepted_message example_once_eq spec_normalized_def
        example_env_def emitToHandlers_def emitToGlobalHandlers_def globalForwarder_def
        emit_def bus_eval)

lemma example_once_second:
  "dispatch_all example_env
     [message (JStr ''GameResult'') JNull, message (JStr ''GameResult'') JNull] example_once =
     Inr ((init_sys 0)\<lparr>closures := 1, host := 1, trace :=
       [Called (Observer GForwarder) [JStr ''GameResult'', JNull, JUndefined] True,
        Called (Subscriber (SOnce 0 (JStr ''GameResult'') 100)) [JNull, JUndefined] False,
        ConsoleError]\<rparr>)"
  by (simp add: example_once_first)
     (simp add: listener_accepted accepted_message spec_normalized_def
        emitToHandlers_def emitToGlobalHandlers_def init_sys_def)

theorem once_fires_once_witness:
  "bus_inv (init_sys (0::nat)) \<and> accepted (message (JStr ''GameResult'') JNull)
   \<and> event_type (message (JStr ''GameResult'') JNull) = JStr ''GameResult''
   \<and> closures (init_sys (0::nat)) = 0
   \<and> invoke example_env 100 [JNull, JUndefined] 0 = (False, 1)
   \<and> (\<exists>s'. dispatch_all example_env
          [message (JStr ''GameResult'') JNull, message (JStr ''GameResult'') JNull]
          example_once = Inr s' \<and>
        called (SOnce 0 (JStr ''GameResult'') 100) (trace s') = 1 \<and>
        subs_of s' (JStr ''GameResult'') = [] \<and>
        trace s' =
          [Called (Observer GForwarder) [JStr ''GameResult'', JNull, JUndefined] True,
           Called (Subscriber (SOnce 0 (JStr ''GameResult'') 100)) [JNull, JUndefined] False,
           ConsoleError])"
proof -
  have h: "bus_inv (init_sys (0::nat))" "accepted (message (JStr ''GameResult'') JNull)"
    "event_type (message (JStr ''GameResult'') JNull) = JStr ''GameResult''"
    "\<forall>e' \<in> set [message (JStr ''GameResult'') JNull].
       accepted e' \<and> event_type e' = JStr ''GameResult''"
    by (simp_all add: bus_inv_init accepted_message)
  have c: "closures (init_sys (0::nat)) = 0" "trace (init_sys (0::nat)) = []"
    "invoke example_env 100 [JNull, JUndefined] 0 = (False, 1)"
    by (simp_all add: init_sys_def example_env_def)
  note t = once_fires_once [OF h, where E = example_env and h = 100]
  have "\<exists>s'. dispatch_all example_env
          [message (JStr ''GameResult'') JNull, message (JStr ''GameResult'') JNull]
          example_once = Inr s' \<and>
        called (SOnce 0 (JStr ''GameResult'') 100) (trace s') = 1 \<and>
        subs_of s' (JStr ''GameResult'') = [] \<and>
        trace s' =
          [Called (Observer GForwarder) [JStr ''GameResult'', JNull, JUndefined] True,
           Called (Subscriber (SOnce 0 (JStr ''GameResult'') 100)) [JNull, JUndefined] False,
           ConsoleError]"
    using conjunct1 [OF conjunct2 [OF t]] c
    unfolding example_once_def [symmetric] example_once_second
    by (simp add: called_def subs_of_def init_sys_def)
  then show ?thesis
    using h c by blast
qed

text \<open>
  With callbacks that cause no dispatch while they run, the dispatch with nested
  dispatches is the dispatch of the section on inbound dispatch, whatever the depth of
  nesting allowed.
\<close>

lemma call_host_quiet:
  "\<forall>n args h. dispatches E n args h = [] \<Longrightarrow>
   call_host d E n args s =
     Some (fst (invoke E n args (host s)), s\<lparr>host := snd (invoke E n args (host s))\<rparr>)"
  by (simp add: call_host_def split: prod.splits)

lemma call_sub_re_quiet:
  "\<forall>n args h. dispatches E n args h = [] \<Longrightarrow>
   call_sub_re d E f args s = Some (call_sub E f args s)"
  by (cases f) (simp_all add: call_host_quiet Let_def split: prod.splits)

lemma forward_loop_re_quiet:
  "\<forall>n args h. dispatches E n args h = [] \<Longrightarrow>
   forward_loop_re d E fs args s = Some (forward_loop E fs args s)"
  by (induction fs arbitrary: s) (simp_all add: call_sub_re_quiet split: prod.splits)

lemma globalForwarder_re_quiet:
  "\<forall>n args h. dispatches E n args h = [] \<Longrightarrow>
   globalForwarder_re d E ty p meta s = Some (globalForwarder E ty p meta s)"
  by (simp add: globalForwarder_re_def globalForwarder_def forward_loop_re_quiet
        split: option.splits)

lemma handler_loop_re_quiet:
  "\<forall>n args h. dispatches E n args h = [] \<Longrightarrow>
   handler_loop_re d E fs p s = Some (handler_loop E fs p s)"
  by (induction fs arbitrary: s) (simp_all add: call_host_quiet Let_def split: prod.splits)

lemma call_global_re_quiet:
  "\<forall>n args h. dispatches E n args h = [] \<Longrightarrow>
   call_global_re d E g ty p meta s = Some (call_global E g ty p meta s)"
  by (cases g) (simp_all add: call_host_quiet globalForwarder_re_quiet split: prod.splits)

lemma global_loop_re_quiet:
  "\<forall>n args h. dispatches E n args h = [] \<Longrightarrow>
   global_loop_re d E gs ty p meta s = Some (global_loop E gs ty p meta s)"
  by (induction gs arbitrary: s) (simp_all add: call_global_re_quiet split: prod.splits)

lemma listener_re_quiet:
  "\<forall>n args h. dispatches E n args h = [] \<Longrightarrow>
   listener_re d E e s = Some (windowUnityMessageListener E e s)"
  by (simp add: listener_re_def windowUnityMessageListener_def emitToHandlers_re_def
        emitToHandlers_def emitToGlobalHandlers_re_def emitToGlobalHandlers_def
        handler_loop_re_quiet global_loop_re_quiet Let_def split: prod.splits option.splits)

lemma dispatch_all_re_quiet:
  "\<forall>n args h. dispatches E n args h = [] \<Longrightarrow>
   dispatch_all_re k E es s = Some (dispatch_all E es s)"
  by (induction es arbitrary: s) (simp_all add: listener_re_quiet split: sum.splits)

lemma reentrant_once_eq:
  "reentrant_once = (init_sys 0)\<lparr>globalHandlers := [GForwarder],
     subscribers := [(JStr ''GameResult'', [SOnce 0 (JStr ''GameResult'') 42])],
     installed := True, closures := 1\<rparr>"
  by (simp add: reentrant_once_def once_def bus_eval)

lemma reentrant_env_simps:
  "invoke reentrant_env n args h = (n < 100, Suc h)"
  "dispatches reentrant_env n args h =
     (if n = 42 \<and> h = 0 then [message (JStr ''GameResult'') JUndefined] else [])"
  by (simp_all add: reentrant_env_def example_env_def)

text \<open>
  The dispatch that the handler causes, from the state in which it runs: the closure is
  still subscribed, is called, and unsubscribes itself.
\<close>

lemma reentrant_inner:
  "dispatchEvent (Suc 0) reentrant_env (message (JStr ''GameResult'') JUndefined)
     (reentrant_once\<lparr>host := 1,
        trace := [Called (Observer GForwarder) [JStr ''GameResult'', JUndefined, JUndefined] True]\<rparr>) =
   Some ((init_sys 0)\<lparr>closures := 1, host := 2, trace :=
     [Called (Observer GForwarder) [JStr ''GameResult'', JUndefined, JUndefined] True,
      Called (Observer GForwarder) [JStr ''GameResult'', JUndefined, JUndefined] True,
      Called (Subscriber (SOnce 0 (JStr ''GameResult'') 42)) [JUndefined, JUndefined] True]\<rparr>)"
  by (simp add: listener_re_def message_def custom_event_def normalize_def
        emitToHandlers_re_def emitToGlobalHandlers_re_def globalForwarder_re_def
        call_host_def reentrant_env_simps reentrant_once_eq emit_def bus_eval init_sys_def)

lemma reentrant_first:
  "listener_re (dispatchEvent (Suc 0) reentrant_env) reentrant_env
     (message (JStr ''GameResult'') JUndefined) reentrant_once =
   Some (Inr ((init_sys 0)\<lparr>closures := 1, host := 2, trace :=
     [Called (Observer GForwarder) [JStr ''GameResult'', JUndefined, JUndefined] True,
      Called (Observer GForwarder) [JStr ''GameResult'', JUndefined, JUndefined] True,
      Called (Subscriber (SOnce 0 (JStr ''GameResult'') 42)) [JUndefined, JUndefined] True,
      Called (Subscriber (SOnce 0 (JStr ''GameResult'') 42)) [JUndefined, JUndefined] True]\<rparr>))"
  by (simp add: listener_re_def message_def custom_event_def normalize_def
        emitToHandlers_re_def emitToGlobalHandlers_re_def globalForwarder_re_def
        call_host_def reentrant_env_simps reentrant_once_eq emit_def bus_eval init_sys_def)

text \<open>
  C9. A handler registered with \<^verbatim>\<open>once\<close> is called twice when it causes a dispatch of
  its type while it runs. The bus holds \<^verbatim>\<open>once('GameResult', h)\<close>, and \<open>h\<close>
  dispatches a \<^verbatim>\<open>'GameResult'\<close> event the first time it runs. An event of the type
  arrives from the engine: the forwarder calls the closure and the closure calls
  \<open>h\<close>. The closure unsubscribes itself in its \<^verbatim>\<open>finally\<close>, after \<open>h\<close> has
  returned, so the dispatch that \<open>h\<close> causes finds the closure still subscribed and
  calls it, and through it \<open>h\<close>, a second time; only then is the closure removed.
  Every call of the closure is a call of \<open>h\<close>: \<open>h\<close> has run twice by the end of
  the first dispatch, and a second event from the engine calls nothing more.
\<close>

theorem once_fires_twice_when_reentered:
  "subs_of reentrant_once (JStr ''GameResult'') = [SOnce 0 (JStr ''GameResult'') 42]
   \<and> listener_re (dispatchEvent (Suc 0) reentrant_env) reentrant_env
         (message (JStr ''GameResult'') JUndefined) reentrant_once =
       Some (Inr ((init_sys 0)\<lparr>closures := 1, host := 2, trace :=
         [Called (Observer GForwarder) [JStr ''GameResult'', JUndefined, JUndefined] True,
          Called (Observer GForwarder) [JStr ''GameResult'', JUndefined, JUndefined] True,
          Called (Subscriber (SOnce 0 (JStr ''GameResult'') 42)) [JUndefined, JUndefined] True,
          Called (Subscriber (SOnce 0 (JStr ''GameResult'') 42)) [JUndefined, JUndefined] True]\<rparr>))
   \<and> called_after (SOnce 0 (JStr ''GameResult'') 42)
         (dispatch_all_re (Suc 0) reentrant_env
            [message (JStr ''GameResult'') JUndefined] reentrant_once) = Some 2
   \<and> called_after (SOnce 0 (JStr ''GameResult'') 42)
         (dispatch_all_re (Suc 0) reentrant_env
            [message (JStr ''GameResult'') JUndefined, message (JStr ''GameResult'') JUndefined]
            reentrant_once) = Some 2"
proof -
  let ?w = "SOnce 0 (JStr ''GameResult'') 42"
  let ?m = "message (JStr ''GameResult'') JUndefined"
  let ?s' = "(init_sys (0::nat))\<lparr>closures := 1, host := 2, trace :=
         [Called (Observer GForwarder) [JStr ''GameResult'', JUndefined, JUndefined] True,
          Called (Observer GForwarder) [JStr ''GameResult'', JUndefined, JUndefined] True,
          Called (Subscriber ?w) [JUndefined, JUndefined] True,
          Called (Subscriber ?w) [JUndefined, JUndefined] True]\<rparr>"
  have a: "subs_of reentrant_once (JStr ''GameResult'') = [?w]"
    by (simp add: reentrant_once_eq subs_of_def)
  have b: "listener_re (dispatchEvent (Suc 0) reentrant_env) reentrant_env ?m reentrant_once =
      Some (Inr ?s')"
    by (rule reentrant_first)
  have later: "listener_re (dispatchEvent (Suc 0) reentrant_env) reentrant_env ?m ?s' =
      Some (Inr ?s')"
    by (simp add: listener_re_def message_def custom_event_def normalize_def
          emitToHandlers_re_def emitToGlobalHandlers_re_def init_sys_def Let_def)
  have n: "called ?w (trace ?s') = 2"
    by (simp add: called_def calls_def)
  have one: "dispatch_all_re (Suc 0) reentrant_env [?m] reentrant_once = Some (Inr ?s')"
    by (simp only: dispatch_all_re.simps b option.case sum.case)
  have two: "dispatch_all_re (Suc 0) reentrant_env [?m, ?m] reentrant_once = Some (Inr ?s')"
    by (simp only: dispatch_all_re.simps b later option.case sum.case)
  have c: "called_after ?w (dispatch_all_re (Suc 0) reentrant_env [?m] reentrant_once) = Some 2"
    unfolding one using n by (simp add: called_after_def)
  have d: "called_after ?w (dispatch_all_re (Suc 0) reentrant_env [?m, ?m] reentrant_once) =
      Some 2"
    unfolding two using n by (simp add: called_after_def)
  show ?thesis
    using a b c d by blast
qed

theorem once_fires_twice_when_reentered_witness:
  "called_after (SOnce 0 (JStr ''GameResult'') 42)
     (dispatch_all_re (Suc 0) reentrant_env
        [message (JStr ''GameResult'') JUndefined] reentrant_once) = Some 2"
  using once_fires_twice_when_reentered by blast

text \<open>
  With callbacks that cause no dispatch while they run the closure is called exactly once,
  whatever the depth of nesting allowed.
\<close>

lemma once_fires_once_nested:
  assumes "\<forall>n args h. dispatches E n args h = []"
    and "bus_inv s" and "accepted e" and "event_type e = ty"
    and "\<forall>e' \<in> set es. accepted e' \<and> event_type e' = ty"
  shows "\<exists>s'. dispatch_all_re k E (e # es) (once ty (Some h) s) = Some (Inr s') \<and>
          called (SOnce (closures s) ty h) (trace s') =
            Suc (called (SOnce (closures s) ty h) (trace s)) \<and>
          SOnce (closures s) ty h \<notin> set (subs_of s' ty)"
  using conjunct1 [OF conjunct2 [OF once_fires_once [OF assms(2-5), of h E]]]
  unfolding dispatch_all_re_quiet [OF assms(1)] by simp

section \<open>The loader hook, evaluated\<close>

lemmas loader_eval = mount_def unmount_def injectLoader_def script_load_def script_error_def
  onLoad_def onError_def initialize_def create_settled_def initialize_then_def
  initialize_catch_def quit_def doCleanup_def reload_begin_def reload_resume_def
  reload_finally_def init_loader_def observable_def Let_def

lemma overlapping_loads_eq:
  "overlapping_loads = init_loader\<lparr>mountedRef := True, reloadingRef := True,
     scriptRef := Some 1, loadingPromiseRef := Some 1, loadIdRef := 2,
     loadingState := LOADING, scripts := 2\<rparr>"
  by (simp add: overlapping_loads_def loader_eval)

text \<open>What a result that is stale, or that arrives after unmounting, does to the hook.\<close>

lemma stale_result:
  "loadIdRef l \<noteq> k \<Longrightarrow>
   create_settled (Some k) (Inr i) l =
     (Inl StaleResult, (quit i l)\<lparr>loadError := Some StaleResult, loadingState := ERROR\<rparr>)"
  by (auto simp: create_settled_def initialize_then_def initialize_catch_def)

lemma stale_result_unpublished:
  "loadIdRef l \<noteq> k \<Longrightarrow>
   hook_unityInstance (snd (create_settled (Some k) (Inr i) l)) = hook_unityInstance l \<and>
   unityInstanceRef (snd (create_settled (Some k) (Inr i) l)) = unityInstanceRef l \<and>
   quits (snd (create_settled (Some k) (Inr i) l)) =
     quits l @ (if has_Quit i then [inst_id i] else [])"
  by (simp add: stale_result quit_def)

lemma current_result:
  "loadIdRef l = k \<Longrightarrow> mountedRef l \<Longrightarrow>
   create_settled (Some k) (Inr i) l =
     (Inr i, l\<lparr>unityInstanceRef := Some i, hook_unityInstance := Some i,
               loadingState := READY, createdRef := True\<rparr>)"
  by (simp add: create_settled_def initialize_then_def)

lemma unmounted_result:
  "loadIdRef l = k \<Longrightarrow> \<not> mountedRef l \<Longrightarrow>
   create_settled (Some k) (Inr i) l =
     (Inl UnmountedBeforeCreated,
      (quit i l)\<lparr>loadError := Some UnmountedBeforeCreated, loadingState := ERROR\<rparr>)"
  by (simp add: create_settled_def initialize_then_def initialize_catch_def)

text \<open>
  C1, at the overlapping loads: the result of attempt 1 arrives while attempt 2 is the
  current one. Its instance is told to quit and is not published, but the rejection
  that \<^verbatim>\<open>initialize\<close> builds for it runs into the \<^verbatim>\<open>catch\<close> of the same chain: the
  hook shows the state \<^verbatim>\<open>error\<close> and the error of the stale result while attempt 2 is
  still loading, and it keeps that error after attempt 2 has become ready.
\<close>

theorem stale_result_reaches_state:
  "loadIdRef overlapping_loads = 2
   \<and> observable overlapping_loads = (LOADING, None, None, None)
   \<and> create_settled (Some 1) (Inr example_handle) overlapping_loads =
       (Inl StaleResult,
        overlapping_loads\<lparr>quits := [7], loadError := Some StaleResult, loadingState := ERROR\<rparr>)
   \<and> observable (snd (create_settled (Some 1) (Inr example_handle) overlapping_loads)) =
       (ERROR, Some StaleResult, None, None)
   \<and> observable (snd (create_settled (Some 2) (Inr second_handle)
         (snd (create_settled (Some 1) (Inr example_handle) overlapping_loads)))) =
       (READY, Some StaleResult, Some second_handle, Some second_handle)"
  by (simp add: overlapping_loads_eq loader_eval example_handle_def second_handle_def)

text \<open>
  C3, at a loader script that fails to load during the first load: \<^verbatim>\<open>onError\<close>
  records the error and leaves the state at \<^verbatim>\<open>loading\<close>; so do the two rejections of
  \<^verbatim>\<open>initialize\<close> before it calls \<^verbatim>\<open>createUnityInstance\<close>. Only a rejection of
  \<^verbatim>\<open>createUnityInstance\<close> itself sets the state \<^verbatim>\<open>error\<close>. No instance is published
  in any of the four cases.
\<close>

theorem script_failure_keeps_loading:
  "observable (script_error 0 (mount init_loader)) =
     (LOADING, Some LoaderScriptFailed, None, None)
   \<and> observable (snd (script_load 0 False True (mount init_loader))) =
     (LOADING, Some CanvasNotFound, None, None)
   \<and> observable (snd (script_load 0 True False (mount init_loader))) =
     (LOADING, Some CreateUnavailable, None, None)
   \<and> observable (snd (create_settled (Some 1) (Inl 5)
        (snd (script_load 0 True True (mount init_loader))))) =
     (ERROR, Some (CreateRejected 5), None, None)"
  by (simp add: loader_eval)

end
